theory Spec2Isabelle
  imports Main "HOL-Library.Sublist"
begin

section \<open>Data model\<close>

text \<open>
  Paths and byte sequences are Go strings, that is sequences of 8-bit values; an Isabelle
  \<open>char\<close> is an 8-bit value, so both are \<open>string\<close>. Files and directories are looked
  up by the path string the program passes to the operating system.
\<close>

type_synonym path = string
type_synonym bytes = string

text \<open>
  An error value is either an opaque error produced by a library call, or the result of
  \<open>fmt.Errorf("<context>: %w", err)\<close>, which wraps an error with a context string.
\<close>

datatype error = Errno string | Wrapf string error

text \<open>
  The file system: regular files with their content, directories with the permission
  bits they were created with.
\<close>

record filesystem =
  files :: "path \<rightharpoonup> bytes"
  dirs :: "path \<rightharpoonup> nat"

text \<open>
  An \<open>io.Reader\<close> is the bytes it yields until it stops, and how it stops:
  \<open>None\<close> at end of file, \<open>Some e\<close> when a read fails with \<open>e\<close>.
\<close>

type_synonym stream = "bytes \<times> error option"

record url =
  Scheme :: string
  Host :: string
  Path :: string

record request =
  Method :: string
  URL :: url

record response =
  StatusCode :: nat
  Body :: stream

text \<open>The \<open>*http.Client\<close> argument: what \<open>client.Do\<close> answers to a request.\<close>

type_synonym client = "request \<Rightarrow> error + response"

text \<open>
  The behaviour of the outside world during one call: for each library operation the
  program calls, whether it fails, and what the decompressing readers yield.
  \<^item> \<open>mkdir_err p\<close>: the error of \<open>os.Mkdir\<close> on \<open>p\<close>, if it fails;
  \<^item> \<open>temp_dir\<close>: \<open>os.TempDir()\<close>, the default directory for temporary files;
  \<^item> \<open>randoms\<close>: the successive random numbers put into temporary file names;
  \<^item> \<open>open_err p\<close>: the error of creating the file \<open>p\<close>, other than that it exists;
  \<^item> \<open>new_request_err m u\<close>: the error of \<open>http.NewRequest(m, u.String(), nil)\<close>;
  \<^item> \<open>gzip_new_reader\<close>, \<open>xz_new_reader\<close>: the constructor's error, or the
    decompressing reader; \<open>bzip2_new_reader\<close>: the reader, since
    \<open>bzip2.NewReader\<close> returns no error;
  \<^item> \<open>write_err p\<close>: \<open>Some (n, e)\<close> when writing to \<open>p\<close> fails with \<open>e\<close> after
    \<open>n\<close> bytes;
  \<^item> \<open>close_err\<close>, \<open>rename_err\<close>, \<open>remove_err\<close>: the errors of the first
    \<open>Close\<close> of a file, of \<open>os.Rename\<close> and of \<open>os.Remove\<close>.
\<close>

record world =
  mkdir_err :: "path \<Rightarrow> error option"
  temp_dir :: path
  randoms :: "nat list"
  open_err :: "path \<Rightarrow> error option"
  new_request_err :: "string \<Rightarrow> url \<Rightarrow> error option"
  gzip_new_reader :: "stream \<Rightarrow> error + stream"
  bzip2_new_reader :: "stream \<Rightarrow> stream"
  xz_new_reader :: "stream \<Rightarrow> error + stream"
  write_err :: "path \<Rightarrow> (nat \<times> error) option"
  close_err :: "path \<Rightarrow> error option"
  rename_err :: "path \<Rightarrow> path \<Rightarrow> error option"
  remove_err :: "path \<Rightarrow> error option"

text \<open>The library calls a run of the program makes, in order.\<close>

datatype call =
    MkdirAll path nat
  | TempFile path string
  | NewRequest string url
  | ClientDo request
  | GzipNewReader
  | Bzip2NewReader
  | XzNewReader
  | Copy path stream
  | Close path
  | Rename path path
  | Remove path
  | CloseBody

record outcome =
  err :: "error option"
  fsys :: filesystem
  trace :: "call list"

section \<open>Library operations\<close>

text \<open>
  The functions of Go's standard library that Download calls, on a Unix platform (the
  separator is \<open>/\<close>, there are no volume names), with their effect on the file system.
\<close>

subsection \<open>Strings and paths\<close>

text \<open>\<open>strings.HasSuffix(s, suffix)\<close>: \<open>len(s) >= len(suffix) && s[len(s)-len(suffix):] == suffix\<close>.\<close>

definition HasSuffix :: "string \<Rightarrow> string \<Rightarrow> bool" where
  "HasSuffix s sfx \<longleftrightarrow> length s \<ge> length sfx \<and> drop (length s - length sfx) s = sfx"

definition IsPathSeparator :: "char \<Rightarrow> bool" where
  "IsPathSeparator c \<longleftrightarrow> c = CHR ''/''"

text \<open>
  \<open>filepath.Split(path)\<close>: scan back from the end to the last separator; the directory is
  everything up to and including it, the file is the rest.
\<close>

definition Split :: "path \<Rightarrow> path \<times> string" where
  "Split p =
     (rev (dropWhile (\<lambda>c. \<not> IsPathSeparator c) (rev p)),
      rev (takeWhile (\<lambda>c. \<not> IsPathSeparator c) (rev p)))"

text \<open>\<open>uitoa\<close>: the decimal digits of an unsigned integer.\<close>

definition digit :: "nat \<Rightarrow> char" where
  "digit d = ''0123456789'' ! (d mod 10)"

fun uitoa :: "nat \<Rightarrow> string" where
  "uitoa n = (if n < 10 then [digit n] else uitoa (n div 10) @ [digit (n mod 10)])"

declare uitoa.simps [simp del]

subsection \<open>\<open>os.MkdirAll\<close>\<close>

text \<open>
  The parent of a path: drop the trailing separators, then the last path element.
\<close>

definition path_parent :: "path \<Rightarrow> path" where
  "path_parent p = rev (dropWhile (\<lambda>c. \<not> IsPathSeparator c) (dropWhile IsPathSeparator (rev p)))"

text \<open>
  \<open>os.MkdirAll(path, perm)\<close>: nothing to do when the path is a directory; an error when
  it is a file; otherwise make sure the parent exists (recursively), then \<open>Mkdir\<close> the
  path itself. A failure half way leaves the parents already created.
\<close>

function mkdir_all :: "world \<Rightarrow> filesystem \<Rightarrow> path \<Rightarrow> nat \<Rightarrow> error option \<times> filesystem" where
  "mkdir_all w fs p perm =
     (if dirs fs p \<noteq> None then (None, fs)
      else if files fs p \<noteq> None then (Some (Errno ''not a directory''), fs)
      else
        (case (if path_parent p \<noteq> [] then mkdir_all w fs (path_parent p) perm else (None, fs)) of
           (Some e, fs1) \<Rightarrow> (Some e, fs1)
         | (None, fs1) \<Rightarrow>
             (case mkdir_err w p of
                Some e \<Rightarrow> (Some e, fs1)
              | None \<Rightarrow> (None, fs1\<lparr>dirs := (dirs fs1)(p \<mapsto> perm)\<rparr>))))"
  by pat_completeness auto
termination
proof (relation "measure (\<lambda>(w, fs, p, perm). length p)")
  show "wf (measure (\<lambda>(w, fs, p, perm). length p))" by simp
next
  fix w :: world and fs :: filesystem and p :: path and perm :: nat
  assume ne: "path_parent p \<noteq> []"
  then have "p \<noteq> []" by (auto simp: path_parent_def)
  then obtain x xs where r: "rev p = x # xs" by (cases "rev p") auto
  have "length (path_parent p) \<le> length xs"
  proof (cases "IsPathSeparator x")
    case True
    have "length (dropWhile (\<lambda>c. \<not> IsPathSeparator c) (dropWhile IsPathSeparator xs))
            \<le> length (dropWhile IsPathSeparator xs)"
      by (rule length_dropWhile_le)
    also have "\<dots> \<le> length xs" by (rule length_dropWhile_le)
    finally show ?thesis using True r by (simp add: path_parent_def)
  next
    case False
    have "length (dropWhile (\<lambda>c. \<not> IsPathSeparator c) xs) \<le> length xs"
      by (rule length_dropWhile_le)
    then show ?thesis using False r by (simp add: path_parent_def)
  qed
  moreover have "length p = Suc (length xs)"
    using r by (metis length_Cons length_rev)
  ultimately show "((w, fs, path_parent p, perm), (w, fs, p, perm))
                     \<in> measure (\<lambda>(w, fs, p, perm). length p)"
    by simp
qed

declare mkdir_all.simps [simp del]

subsection \<open>\<open>ioutil.TempFile\<close> (\<open>os.CreateTemp\<close>)\<close>

text \<open>
  The pattern must hold no path separator; it is cut at its last \<open>*\<close> into the prefix and
  the suffix of the name, and is all prefix when it has none.
\<close>

definition prefixAndSuffix :: "string \<Rightarrow> error + (string \<times> string)" where
  "prefixAndSuffix pattern =
     (if list_ex IsPathSeparator pattern
        then Inl (Errno ''pattern contains path separator'')
      else if CHR ''*'' \<in> set pattern
        then Inr (rev (tl (dropWhile (\<lambda>c. c \<noteq> CHR ''*'') (rev pattern))),
                  rev (takeWhile (\<lambda>c. c \<noteq> CHR ''*'') (rev pattern)))
      else Inr (pattern, []))"

definition joinPath :: "path \<Rightarrow> string \<Rightarrow> path" where
  "joinPath dir name =
     (if dir \<noteq> [] \<and> IsPathSeparator (last dir) then dir @ name else dir @ ''/'' @ name)"

text \<open>
  One candidate name per random number, opened with \<open>O_CREATE|O_EXCL\<close>: a name that
  exists is skipped and the next one tried; any other failure of the open is returned.
  The created file is empty.
\<close>

fun create_temp_loop ::
  "world \<Rightarrow> filesystem \<Rightarrow> string \<Rightarrow> string \<Rightarrow> nat list \<Rightarrow> (error + path) \<times> filesystem" where
  "create_temp_loop w fs pre suf [] = (Inl (Errno ''file exists''), fs)"
| "create_temp_loop w fs pre suf (r # rs) =
     (let name = pre @ uitoa r @ suf in
      if files fs name \<noteq> None \<or> dirs fs name \<noteq> None
        then create_temp_loop w fs pre suf rs
      else (case open_err w name of
              Some e \<Rightarrow> (Inl e, fs)
            | None \<Rightarrow> (Inr name, fs\<lparr>files := (files fs)(name \<mapsto> [])\<rparr>)))"

definition CreateTemp :: "world \<Rightarrow> filesystem \<Rightarrow> path \<Rightarrow> string \<Rightarrow> (error + path) \<times> filesystem" where
  "CreateTemp w fs dir pattern =
     (let dir' = (if dir = [] then temp_dir w else dir) in
      case prefixAndSuffix pattern of
        Inl e \<Rightarrow> (Inl e, fs)
      | Inr (pre, suf) \<Rightarrow> create_temp_loop w fs (joinPath dir' pre) suf (take 10000 (randoms w)))"

subsection \<open>\<open>io.Copy\<close>, \<open>os.Rename\<close>, \<open>os.Remove\<close>\<close>

text \<open>
  \<open>io.Copy(dst, r)\<close> appends what the reader yields to the file. When the file system
  takes only \<open>n\<close> bytes and the reader has more, the write error is returned; otherwise the
  reader's own error, if it has one.
\<close>

definition io_copy :: "world \<Rightarrow> filesystem \<Rightarrow> path \<Rightarrow> stream \<Rightarrow> error option \<times> filesystem" where
  "io_copy w fs dst r =
     (let old = (case files fs dst of None \<Rightarrow> [] | Some c \<Rightarrow> c) in
      case write_err w dst of
        Some (n, e) \<Rightarrow>
          if n < length (fst r)
            then (Some e, fs\<lparr>files := (files fs)(dst \<mapsto> old @ take n (fst r))\<rparr>)
          else (snd r, fs\<lparr>files := (files fs)(dst \<mapsto> old @ fst r)\<rparr>)
      | None \<Rightarrow> (snd r, fs\<lparr>files := (files fs)(dst \<mapsto> old @ fst r)\<rparr>))"

text \<open>
  \<open>os.Rename(old, new)\<close> is atomic: it fails and changes nothing, or the content of
  \<open>old\<close> replaces whatever was at \<open>new\<close> and \<open>old\<close> is gone.
\<close>

definition rename :: "world \<Rightarrow> filesystem \<Rightarrow> path \<Rightarrow> path \<Rightarrow> error option \<times> filesystem" where
  "rename w fs old new =
     (case rename_err w old new of
        Some e \<Rightarrow> (Some e, fs)
      | None \<Rightarrow>
          (case files fs old of
             None \<Rightarrow> (Some (Errno ''no such file or directory''), fs)
           | Some c \<Rightarrow> (None, fs\<lparr>files := ((files fs)(old := None))(new \<mapsto> c)\<rparr>)))"

definition remove :: "world \<Rightarrow> filesystem \<Rightarrow> path \<Rightarrow> error option \<times> filesystem" where
  "remove w fs name =
     (case remove_err w name of
        Some e \<Rightarrow> (Some e, fs)
      | None \<Rightarrow> (None, fs\<lparr>files := (files fs)(name := None)\<rparr>))"

section \<open>Download\<close>

text \<open>
  The function is modelled in the pieces its deferred calls delimit. Each piece returns
  the error, the flag \<open>moved\<close>, the file system and the calls made.

  Lines 84 to 99: copy into the temporary file, close it, rename it into place, set
  \<open>moved\<close>.
\<close>

definition download_copy ::
  "world \<Rightarrow> filesystem \<Rightarrow> path \<Rightarrow> path \<Rightarrow> stream \<Rightarrow> error option \<times> bool \<times> filesystem \<times> call list" where
  "download_copy w fs path tmp r =
     (case io_copy w fs tmp r of
        (Some e, fs1) \<Rightarrow> (Some e, False, fs1, [Copy tmp r])
      | (None, fs1) \<Rightarrow>
          (case close_err w tmp of
             Some e \<Rightarrow>
               (Some (Wrapf ''write and close temporary file'' e), False, fs1, [Copy tmp r, Close tmp])
           | None \<Rightarrow>
               (case rename w fs1 tmp path of
                  (Some e, fs2) \<Rightarrow> (Some e, False, fs2, [Copy tmp r, Close tmp, Rename tmp path])
                | (None, fs2) \<Rightarrow> (None, True, fs2, [Copy tmp r, Close tmp, Rename tmp path]))))"

text \<open>Lines 62 to 82: the reader is chosen by the suffix of \<open>u.Path\<close>.\<close>

definition download_decode ::
  "world \<Rightarrow> filesystem \<Rightarrow> url \<Rightarrow> path \<Rightarrow> path \<Rightarrow> response
     \<Rightarrow> error option \<times> bool \<times> filesystem \<times> call list" where
  "download_decode w fs u path tmp resp =
     (if HasSuffix (Path u) ''gz'' then
        (case gzip_new_reader w (Body resp) of
           Inl e \<Rightarrow> (Some e, False, fs, [GzipNewReader])
         | Inr gr \<Rightarrow>
             (case download_copy w fs path tmp gr of
                (r, moved, fs1, tr) \<Rightarrow> (r, moved, fs1, GzipNewReader # tr)))
      else if HasSuffix (Path u) ''bz2'' then
        (case download_copy w fs path tmp (bzip2_new_reader w (Body resp)) of
           (r, moved, fs1, tr) \<Rightarrow> (r, moved, fs1, Bzip2NewReader # tr))
      else if HasSuffix (Path u) ''xz'' then
        (case xz_new_reader w (Body resp) of
           Inl e \<Rightarrow> (Some e, False, fs, [XzNewReader])
         | Inr xzr \<Rightarrow>
             (case download_copy w fs path tmp xzr of
                (r, moved, fs1, tr) \<Rightarrow> (r, moved, fs1, XzNewReader # tr)))
      else download_copy w fs path tmp (Body resp))"

text \<open>
  Lines 51 to 60: build the request, send it; once there is a response, closing its body
  is deferred, so it is the first call made when the rest returns.
\<close>

definition download_request ::
  "world \<Rightarrow> filesystem \<Rightarrow> client \<Rightarrow> url \<Rightarrow> path \<Rightarrow> path
     \<Rightarrow> error option \<times> bool \<times> filesystem \<times> call list" where
  "download_request w fs cl u path tmp =
     (case new_request_err w ''GET'' u of
        Some e \<Rightarrow> (Some e, False, fs, [NewRequest ''GET'' u])
      | None \<Rightarrow>
          (let req = \<lparr>Method = ''GET'', URL = u\<rparr> in
           case cl req of
             Inl e \<Rightarrow> (Some e, False, fs, [NewRequest ''GET'' u, ClientDo req])
           | Inr resp \<Rightarrow>
               (case download_decode w fs u path tmp resp of
                  (r, moved, fs1, tr) \<Rightarrow>
                    (r, moved, fs1, [NewRequest ''GET'' u, ClientDo req] @ tr @ [CloseBody]))))"

text \<open>
  Lines 21 to 49, and the two deferred calls registered there, which run last: the
  removal of the temporary file unless \<open>moved\<close> (its error is dropped), then the second
  \<open>Close\<close> (its error is dropped).
\<close>

text \<open>The octal literal \<open>0o755\<close>: \<open>rwxr-xr-x\<close>.\<close>

definition mode_0755 :: nat where
  "mode_0755 = 7 * 64 + 5 * 8 + 5"

definition Download :: "world \<Rightarrow> filesystem \<Rightarrow> client \<Rightarrow> url \<Rightarrow> path \<Rightarrow> outcome" where
  "Download w fs cl u path =
     (case Split path of
        (dir0, file) \<Rightarrow>
          (let dir = (if dir0 = [] then ''.'' else dir0) in
           case mkdir_all w fs dir mode_0755 of
             (Some e, fs1) \<Rightarrow> \<lparr>err = Some e, fsys = fs1, trace = [MkdirAll dir mode_0755]\<rparr>
           | (None, fs1) \<Rightarrow>
               (case CreateTemp w fs1 dir file of
                  (Inl e, fs2) \<Rightarrow>
                    \<lparr>err = Some (Wrapf ''create temporary file'' e), fsys = fs2,
                     trace = [MkdirAll dir mode_0755, TempFile dir file]\<rparr>
                | (Inr tmp, fs2) \<Rightarrow>
                    (case download_request w fs2 cl u path tmp of
                       (r, moved, fs3, tr) \<Rightarrow>
                         \<lparr>err = r,
                          fsys = (if \<not> moved then snd (remove w fs3 tmp) else fs3),
                          trace = [MkdirAll dir mode_0755, TempFile dir file] @ tr
                                  @ (if \<not> moved then [Remove tmp] else []) @ [Close tmp]\<rparr>))))"

section \<open>Decompress\<close>

text \<open>
  Lines 104 to 183, cut at the same places: lines 167 to 182, lines 145 to 165, lines 134
  to 143, and lines 104 to 132 with the deferred calls.
\<close>

definition decompress_copy ::
  "world \<Rightarrow> filesystem \<Rightarrow> path \<Rightarrow> path \<Rightarrow> stream \<Rightarrow> error option \<times> bool \<times> filesystem \<times> call list" where
  "decompress_copy w fs path tmp r =
     (case io_copy w fs tmp r of
        (Some e, fs1) \<Rightarrow> (Some e, False, fs1, [Copy tmp r])
      | (None, fs1) \<Rightarrow>
          (case close_err w tmp of
             Some e \<Rightarrow>
               (Some (Wrapf ''write and close temporary file'' e), False, fs1, [Copy tmp r, Close tmp])
           | None \<Rightarrow>
               (case rename w fs1 tmp path of
                  (Some e, fs2) \<Rightarrow> (Some e, False, fs2, [Copy tmp r, Close tmp, Rename tmp path])
                | (None, fs2) \<Rightarrow> (None, True, fs2, [Copy tmp r, Close tmp, Rename tmp path]))))"

definition decompress_decode ::
  "world \<Rightarrow> filesystem \<Rightarrow> url \<Rightarrow> path \<Rightarrow> path \<Rightarrow> response
     \<Rightarrow> error option \<times> bool \<times> filesystem \<times> call list" where
  "decompress_decode w fs u path tmp resp =
     (if HasSuffix (Path u) ''gz'' then
        (case gzip_new_reader w (Body resp) of
           Inl e \<Rightarrow> (Some e, False, fs, [GzipNewReader])
         | Inr gr \<Rightarrow>
             (case decompress_copy w fs path tmp gr of
                (r, moved, fs1, tr) \<Rightarrow> (r, moved, fs1, GzipNewReader # tr)))
      else if HasSuffix (Path u) ''bz2'' then
        (case decompress_copy w fs path tmp (bzip2_new_reader w (Body resp)) of
           (r, moved, fs1, tr) \<Rightarrow> (r, moved, fs1, Bzip2NewReader # tr))
      else if HasSuffix (Path u) ''xz'' then
        (case xz_new_reader w (Body resp) of
           Inl e \<Rightarrow> (Some e, False, fs, [XzNewReader])
         | Inr xzr \<Rightarrow>
             (case decompress_copy w fs path tmp xzr of
                (r, moved, fs1, tr) \<Rightarrow> (r, moved, fs1, XzNewReader # tr)))
      else decompress_copy w fs path tmp (Body resp))"

definition decompress_request ::
  "world \<Rightarrow> filesystem \<Rightarrow> client \<Rightarrow> url \<Rightarrow> path \<Rightarrow> path
     \<Rightarrow> error option \<times> bool \<times> filesystem \<times> call list" where
  "decompress_request w fs cl u path tmp =
     (case new_request_err w ''GET'' u of
        Some e \<Rightarrow> (Some e, False, fs, [NewRequest ''GET'' u])
      | None \<Rightarrow>
          (let req = \<lparr>Method = ''GET'', URL = u\<rparr> in
           case cl req of
             Inl e \<Rightarrow> (Some e, False, fs, [NewRequest ''GET'' u, ClientDo req])
           | Inr resp \<Rightarrow>
               (case decompress_decode w fs u path tmp resp of
                  (r, moved, fs1, tr) \<Rightarrow>
                    (r, moved, fs1, [NewRequest ''GET'' u, ClientDo req] @ tr @ [CloseBody]))))"

definition Decompress :: "world \<Rightarrow> filesystem \<Rightarrow> client \<Rightarrow> url \<Rightarrow> path \<Rightarrow> outcome" where
  "Decompress w fs cl u path =
     (case Split path of
        (dir0, file) \<Rightarrow>
          (let dir = (if dir0 = [] then ''.'' else dir0) in
           case mkdir_all w fs dir mode_0755 of
             (Some e, fs1) \<Rightarrow> \<lparr>err = Some e, fsys = fs1, trace = [MkdirAll dir mode_0755]\<rparr>
           | (None, fs1) \<Rightarrow>
               (case CreateTemp w fs1 dir file of
                  (Inl e, fs2) \<Rightarrow>
                    \<lparr>err = Some (Wrapf ''create temporary file'' e), fsys = fs2,
                     trace = [MkdirAll dir mode_0755, TempFile dir file]\<rparr>
                | (Inr tmp, fs2) \<Rightarrow>
                    (case decompress_request w fs2 cl u path tmp of
                       (r, moved, fs3, tr) \<Rightarrow>
                         \<lparr>err = r,
                          fsys = (if \<not> moved then snd (remove w fs3 tmp) else fs3),
                          trace = [MkdirAll dir mode_0755, TempFile dir file] @ tr
                                  @ (if \<not> moved then [Remove tmp] else []) @ [Close tmp]\<rparr>))))"

section \<open>The reader handed to \<open>io.Copy\<close>\<close>

text \<open>
  \<open>selected w u resp r\<close>: after the switch of lines 65 to 82 on \<open>u.Path\<close>, the variable
  \<open>r\<close> holds the reader \<open>r\<close>.
\<close>

definition selected :: "world \<Rightarrow> url \<Rightarrow> response \<Rightarrow> stream \<Rightarrow> bool" where
  "selected w u resp r =
     (if HasSuffix (Path u) ''gz'' then gzip_new_reader w (Body resp) = Inr r
      else if HasSuffix (Path u) ''bz2'' then bzip2_new_reader w (Body resp) = r
      else if HasSuffix (Path u) ''xz'' then xz_new_reader w (Body resp) = Inr r
      else Body resp = r)"

section \<open>Concrete worlds\<close>

text \<open>
  A stand-in for a decompressing reader, for running the model on concrete inputs: a
  stream is accepted when it starts with the two magic bytes, and the reader yields
  what follows them.
\<close>

definition stub_reader :: "char \<Rightarrow> char \<Rightarrow> stream \<Rightarrow> error + stream" where
  "stub_reader m1 m2 s =
     (case fst s of
        c1 # c2 # rest \<Rightarrow>
          if c1 = m1 \<and> c2 = m2 then Inr (rest, snd s) else Inl (Errno ''invalid header'')
      | _ \<Rightarrow> Inl (Errno ''unexpected EOF''))"

text \<open>A stand-in for the lazy bzip2 reader: the header is checked by the first read.\<close>

definition stub_lazy_reader :: "char \<Rightarrow> char \<Rightarrow> stream \<Rightarrow> stream" where
  "stub_lazy_reader m1 m2 s =
     (case stub_reader m1 m2 s of Inl e \<Rightarrow> ([], Some e) | Inr r \<Rightarrow> r)"

text \<open>A world in which no operation fails.\<close>

definition quiet_world :: world where
  "quiet_world =
     \<lparr>mkdir_err = (\<lambda>_. None), temp_dir = ''/tmp'', randoms = [42],
      open_err = (\<lambda>_. None), new_request_err = (\<lambda>_ _. None),
      gzip_new_reader = stub_reader (CHR 0x1F) (CHR 0x8B),
      bzip2_new_reader = stub_lazy_reader (CHR ''B'') (CHR ''Z''),
      xz_new_reader = stub_reader (CHR 0xFD) (CHR ''7''),
      write_err = (\<lambda>_. None), close_err = (\<lambda>_. None),
      rename_err = (\<lambda>_ _. None), remove_err = (\<lambda>_. None)\<rparr>"

definition empty_fs :: filesystem where
  "empty_fs = \<lparr>files = Map.empty, dirs = Map.empty\<rparr>"

definition serve :: "nat \<Rightarrow> bytes \<Rightarrow> client" where
  "serve code body = (\<lambda>req. Inr \<lparr>StatusCode = code, Body = (body, None)\<rparr>)"

definition url_of_path :: "string \<Rightarrow> url" where
  "url_of_path p = \<lparr>Scheme = ''http'', Host = ''example.test'', Path = p\<rparr>"

definition refuse :: client where
  "refuse = (\<lambda>req. Inl (Errno ''connection refused''))"


text \<open>A file system in which the destination \<open>data.txt\<close> exists already.\<close>

definition old_fs :: filesystem where
  "old_fs = \<lparr>files = [''data.txt'' \<mapsto> ''old''], dirs = [''.'' \<mapsto> mode_0755]\<rparr>"

text \<open>The same client, answering every request with the status code \<open>code\<close>.\<close>

definition with_status :: "nat \<Rightarrow> client \<Rightarrow> client" where
  "with_status code cl = (\<lambda>req. case cl req of Inl e \<Rightarrow> Inl e | Inr resp \<Rightarrow> Inr (resp\<lparr>StatusCode := code\<rparr>))"

text \<open>Worlds in which one operation fails, with the same error, and nothing else does.\<close>

definition copy_fails_world :: world where
  "copy_fails_world = quiet_world\<lparr>write_err := (\<lambda>_. Some (0, Errno ''input/output error''))\<rparr>"

definition rename_fails_world :: world where
  "rename_fails_world = quiet_world\<lparr>rename_err := (\<lambda>_ _. Some (Errno ''input/output error''))\<rparr>"

section \<open>Properties of the library operations\<close>

lemma HasSuffix_iff_suffix: "HasSuffix s sfx \<longleftrightarrow> suffix sfx s"
proof
  assume "HasSuffix s sfx"
  then have "s = take (length s - length sfx) s @ sfx"
    unfolding HasSuffix_def by (metis append_take_drop_id)
  then show "suffix sfx s" unfolding suffix_def by blast
next
  assume "suffix sfx s"
  then obtain ps where "s = ps @ sfx" unfolding suffix_def by blast
  then show "HasSuffix s sfx" unfolding HasSuffix_def by simp
qed

lemma Split_append: "Split p = (d, f) \<Longrightarrow> p = d @ f"
  unfolding Split_def
  by (metis Pair_inject rev_append rev_rev_ident takeWhile_dropWhile_id)

lemma Split_file_no_sep: "Split p = (d, f) \<Longrightarrow> \<not> list_ex IsPathSeparator f"
  unfolding Split_def list_ex_iff
  by (auto dest: set_takeWhileD)

lemma Split_dir_last: "Split p = (d, f) \<Longrightarrow> d \<noteq> [] \<Longrightarrow> IsPathSeparator (last d)"
proof -
  assume a: "Split p = (d, f)" and ne: "d \<noteq> []"
  let ?xs = "dropWhile (\<lambda>c. \<not> IsPathSeparator c) (rev p)"
  from a have d: "d = rev ?xs" by (simp add: Split_def)
  with ne have "?xs \<noteq> []" by simp
  then have "\<not> \<not> IsPathSeparator (hd ?xs)" by (rule hd_dropWhile)
  then show ?thesis using d \<open>?xs \<noteq> []\<close> by (simp add: last_rev)
qed

lemma digit_in: "digit d \<in> set ''0123456789''"
  unfolding digit_def by (rule nth_mem) simp

lemma uitoa_ne: "uitoa n \<noteq> []"
  by (subst uitoa.simps) simp

lemma uitoa_digits: "set (uitoa n) \<subseteq> set ''0123456789''"
proof (induction n rule: uitoa.induct)
  case (1 n)
  show ?case
  proof (cases "n < 10")
    case True
    then show ?thesis using digit_in[of n] by (subst uitoa.simps) simp
  next
    case False
    then show ?thesis using 1 digit_in[of "n mod 10"] by (subst uitoa.simps) simp
  qed
qed

lemma uitoa_no_star: "CHR ''*'' \<notin> set (uitoa n)"
  using uitoa_digits[of n] by auto

lemma mkdir_all_files: "files (snd (mkdir_all w fs p perm)) = files fs"
proof (induction w fs p perm rule: mkdir_all.induct)
  case (1 w fs p perm)
  show ?case
    using 1 by (subst mkdir_all.simps) (auto split: prod.splits option.splits)
qed

lemma mkdir_all_dirs:
  "dirs (snd (mkdir_all w fs p perm)) q = Some m
     \<Longrightarrow> dirs fs q = Some m \<or> (dirs fs q = None \<and> m = perm)"
proof (induction w fs p perm arbitrary: m rule: mkdir_all.induct)
  case (1 w fs p perm)
  from "1.prems" show ?case
    apply (subst (asm) mkdir_all.simps)
    using "1.IH" by (auto split: prod.splits option.splits if_splits)
qed

lemma mkdir_all_dirs_mono:
  "dirs fs q = Some m \<Longrightarrow> dirs (snd (mkdir_all w fs p perm)) q = Some m"
proof (induction w fs p perm rule: mkdir_all.induct)
  case (1 w fs p perm)
  show ?case
    apply (subst mkdir_all.simps)
    using 1 by (auto split: prod.splits option.splits)
qed

lemma mkdir_all_ok:
  "fst (mkdir_all w fs p perm) = None \<Longrightarrow> dirs (snd (mkdir_all w fs p perm)) p \<noteq> None"
  by (subst mkdir_all.simps, subst (asm) mkdir_all.simps)
     (auto split: prod.splits option.splits if_splits)

lemma create_temp_loop_Inl:
  "create_temp_loop w fs pre suf rs = (Inl e, fs') \<Longrightarrow> fs' = fs"
  by (induction rs) (auto simp: Let_def split: if_splits option.splits)

lemma create_temp_loop_Inr:
  "create_temp_loop w fs pre suf rs = (Inr name, fs') \<Longrightarrow>
     files fs name = None \<and> dirs fs name = None \<and> open_err w name = None
     \<and> fs' = fs\<lparr>files := (files fs)(name \<mapsto> [])\<rparr>
     \<and> (\<exists>r. name = pre @ uitoa r @ suf)"
  by (induction rs) (auto simp: Let_def split: if_splits option.splits)

lemma star_decomp:
  assumes "CHR ''*'' \<in> set s"
  shows "s = rev (tl (dropWhile (\<lambda>c. c \<noteq> CHR ''*'') (rev s))) @ CHR ''*'' #
             rev (takeWhile (\<lambda>c. c \<noteq> CHR ''*'') (rev s))"
proof -
  let ?P = "\<lambda>c. c \<noteq> CHR ''*''"
  let ?dw = "dropWhile ?P (rev s)"
  let ?tw = "takeWhile ?P (rev s)"
  from assms have ne: "?dw \<noteq> []" by (simp add: dropWhile_eq_Nil_conv)
  then have "\<not> ?P (hd ?dw)" by (rule hd_dropWhile)
  with ne have dw: "?dw = CHR ''*'' # tl ?dw" by (cases ?dw) auto
  have "rev s = ?tw @ ?dw" by simp
  then have "rev s = ?tw @ CHR ''*'' # tl ?dw" using dw by metis
  then have "rev (rev s) = rev (?tw @ CHR ''*'' # tl ?dw)" by (rule arg_cong)
  then show ?thesis by simp
qed

lemma prefixAndSuffix_name_ne:
  assumes "prefixAndSuffix file = Inr (pre, suf)"
  shows "pre @ uitoa r @ suf \<noteq> file"
proof (cases "CHR ''*'' \<in> set file")
  case True
  with assms have ps: "pre = rev (tl (dropWhile (\<lambda>c. c \<noteq> CHR ''*'') (rev file)))"
    "suf = rev (takeWhile (\<lambda>c. c \<noteq> CHR ''*'') (rev file))"
    by (auto simp: prefixAndSuffix_def split: if_splits)
  from star_decomp[OF True] ps have f: "file = pre @ CHR ''*'' # suf" by simp
  show ?thesis
  proof
    assume "pre @ uitoa r @ suf = file"
    with f have "pre @ uitoa r @ suf = pre @ [CHR ''*''] @ suf" by simp
    then have "uitoa r = [CHR ''*'']" by simp
    then show False using uitoa_no_star[of r] by simp
  qed
next
  case False
  with assms have "pre = file" "suf = []"
    by (auto simp: prefixAndSuffix_def split: if_splits)
  then show ?thesis using uitoa_ne[of r] by simp
qed

lemma CreateTemp_Inl: "CreateTemp w fs dir pattern = (Inl e, fs') \<Longrightarrow> fs' = fs"
  by (auto simp: CreateTemp_def Let_def split: sum.splits prod.splits dest: create_temp_loop_Inl)

lemma CreateTemp_Inr:
  assumes "CreateTemp w fs dir pattern = (Inr name, fs')"
  shows "files fs name = None \<and> dirs fs name = None
     \<and> fs' = fs\<lparr>files := (files fs)(name \<mapsto> [])\<rparr>"
  using assms
  by (auto simp: CreateTemp_def Let_def split: sum.splits prod.splits dest: create_temp_loop_Inr)

lemma CreateTemp_name:
  assumes "CreateTemp w fs dir pattern = (Inr name, fs')" and "dir \<noteq> []"
  shows "\<exists>pre suf r. prefixAndSuffix pattern = Inr (pre, suf)
            \<and> name = joinPath dir pre @ uitoa r @ suf"
  using assms
  by (auto simp: CreateTemp_def Let_def split: sum.splits prod.splits dest!: create_temp_loop_Inr)

lemma temp_name_ne_path:
  assumes sp: "Split path = (dir0, file)"
    and ct: "CreateTemp w fs (if dir0 = [] then ''.'' else dir0) file = (Inr tmp, fs')"
  shows "tmp \<noteq> path"
proof -
  let ?dir = "if dir0 = [] then ''.'' else dir0"
  have "?dir \<noteq> []" by simp
  from CreateTemp_name[OF ct this] obtain pre suf r where
    ps: "prefixAndSuffix file = Inr (pre, suf)" and
    nm: "tmp = joinPath ?dir pre @ uitoa r @ suf" by blast
  have p: "path = dir0 @ file" using sp by (rule Split_append)
  show ?thesis
  proof (cases "dir0 = []")
    case True
    then have "tmp = ''./'' @ pre @ uitoa r @ suf"
      using nm by (simp add: joinPath_def IsPathSeparator_def)
    then have "list_ex IsPathSeparator tmp" by (simp add: IsPathSeparator_def)
    moreover have "\<not> list_ex IsPathSeparator path"
      using Split_file_no_sep[OF sp] p True by simp
    ultimately show ?thesis by auto
  next
    case False
    then have "IsPathSeparator (last dir0)" using Split_dir_last[OF sp] by simp
    then have "tmp = dir0 @ pre @ uitoa r @ suf"
      using nm False by (simp add: joinPath_def)
    then show ?thesis using p prefixAndSuffix_name_ne[OF ps, of r] by simp
  qed
qed

section \<open>Properties of the pieces of Download\<close>

lemma download_copy_moved:
  "download_copy w fs path tmp r = (res, moved, fs', tr) \<Longrightarrow> moved = (res = None)"
  by (auto simp: download_copy_def split: prod.splits option.splits)

lemma download_copy_dirs:
  "download_copy w fs path tmp r = (res, moved, fs', tr) \<Longrightarrow> dirs fs' = dirs fs"
  by (auto simp: download_copy_def io_copy_def rename_def Let_def
           split: prod.splits option.splits if_splits)

lemma download_copy_success:
  assumes "download_copy w fs path tmp r = (None, moved, fs', tr)" and "files fs tmp = Some []"
  shows "snd r = None \<and> files fs' = ((files fs)(tmp := None))(path \<mapsto> fst r)
         \<and> tr = [Copy tmp r, Close tmp, Rename tmp path]"
  using assms
  by (auto simp: download_copy_def io_copy_def rename_def Let_def
           split: prod.splits option.splits if_splits)

lemma download_copy_failure:
  assumes "download_copy w fs path tmp r = (Some e, moved, fs', tr)"
  shows "\<exists>c. files fs' = (files fs)(tmp \<mapsto> c)"
  using assms
  by (auto simp: download_copy_def io_copy_def rename_def Let_def
           split: prod.splits option.splits if_splits)

lemma download_copy_trace:
  assumes "download_copy w fs path tmp r = (res, moved, fs', tr)"
  shows "tr = [Copy tmp r] \<or> tr = [Copy tmp r, Close tmp] \<or> tr = [Copy tmp r, Close tmp, Rename tmp path]"
  using assms
  by (auto simp: download_copy_def split: prod.splits option.splits)

lemma download_decode_moved:
  "download_decode w fs u path tmp resp = (res, moved, fs', tr) \<Longrightarrow> moved = (res = None)"
  by (auto simp: download_decode_def split: if_splits sum.splits prod.splits
           dest: download_copy_moved)

lemma download_decode_dirs:
  "download_decode w fs u path tmp resp = (res, moved, fs', tr) \<Longrightarrow> dirs fs' = dirs fs"
  by (auto simp: download_decode_def split: if_splits sum.splits prod.splits
           dest: download_copy_dirs)

lemma download_decode_success:
  assumes "download_decode w fs u path tmp resp = (None, moved, fs', tr)"
    and "files fs tmp = Some []"
  shows "\<exists>r. selected w u resp r \<and> snd r = None
           \<and> files fs' = ((files fs)(tmp := None))(path \<mapsto> fst r)"
  using assms
  apply (auto simp: download_decode_def selected_def
           split: if_splits sum.splits prod.splits dest!: download_copy_success)
   apply (metis prod.collapse)+
  done

lemma download_decode_failure:
  assumes "download_decode w fs u path tmp resp = (Some e, moved, fs', tr)"
  shows "files fs' = files fs \<or> (\<exists>c. files fs' = (files fs)(tmp \<mapsto> c))"
  using assms
  by (auto simp: download_decode_def split: if_splits sum.splits prod.splits
           dest!: download_copy_failure)

lemma download_request_moved:
  "download_request w fs cl u path tmp = (res, moved, fs', tr) \<Longrightarrow> moved = (res = None)"
  apply (auto simp: download_request_def Let_def
           split: option.split_asm sum.split_asm prod.split_asm
           dest: download_decode_moved)
  apply (metis option.distinct(1))
  done

lemma download_request_dirs:
  "download_request w fs cl u path tmp = (res, moved, fs', tr) \<Longrightarrow> dirs fs' = dirs fs"
  by (auto simp: download_request_def Let_def split: option.splits sum.splits prod.splits
           dest: download_decode_dirs)

lemma download_request_success:
  assumes "download_request w fs cl u path tmp = (None, moved, fs', tr)"
    and "files fs tmp = Some []"
  shows "\<exists>resp r. cl \<lparr>Method = ''GET'', URL = u\<rparr> = Inr resp
           \<and> selected w u resp r \<and> snd r = None
           \<and> files fs' = ((files fs)(tmp := None))(path \<mapsto> fst r)"
  using assms
  by (auto simp: download_request_def Let_def split: option.splits sum.splits prod.splits
           dest!: download_decode_success)

lemma download_request_failure:
  assumes "download_request w fs cl u path tmp = (Some e, moved, fs', tr)"
  shows "files fs' = files fs \<or> (\<exists>c. files fs' = (files fs)(tmp \<mapsto> c))"
  using assms
  by (auto simp: download_request_def Let_def
           split: option.split_asm sum.split_asm prod.split_asm
           dest!: download_decode_failure)

text \<open>The three ways a call can go.\<close>

lemma Download_cases:
  fixes w fs cl u path
  defines "dir \<equiv> (if fst (Split path) = [] then ''.'' else fst (Split path))"
  defines "base \<equiv> snd (Split path)"
  obtains
    (mkdir_failed) e fs1 where
      "mkdir_all w fs dir mode_0755 = (Some e, fs1)"
      "Download w fs cl u path = \<lparr>err = Some e, fsys = fs1, trace = [MkdirAll dir mode_0755]\<rparr>"
  | (temp_failed) e fs1 where
      "mkdir_all w fs dir mode_0755 = (None, fs1)"
      "CreateTemp w fs1 dir base = (Inl e, fs1)"
      "Download w fs cl u path =
         \<lparr>err = Some (Wrapf ''create temporary file'' e), fsys = fs1,
          trace = [MkdirAll dir mode_0755, TempFile dir base]\<rparr>"
  | (requested) fs1 tmp r fs3 tr where
      "mkdir_all w fs dir mode_0755 = (None, fs1)"
      "CreateTemp w fs1 dir base = (Inr tmp, fs1\<lparr>files := (files fs1)(tmp \<mapsto> [])\<rparr>)"
      "files fs1 tmp = None" "dirs fs1 tmp = None" "tmp \<noteq> path"
      "download_request w (fs1\<lparr>files := (files fs1)(tmp \<mapsto> [])\<rparr>) cl u path tmp
         = (r, r = None, fs3, tr)"
      "Download w fs cl u path =
         \<lparr>err = r,
          fsys = (if r \<noteq> None then snd (remove w fs3 tmp) else fs3),
          trace = [MkdirAll dir mode_0755, TempFile dir base] @ tr
                  @ (if r \<noteq> None then [Remove tmp] else []) @ [Close tmp]\<rparr>"
proof -
  obtain dir0 file0 where sp: "Split path = (dir0, file0)" by (cases "Split path")
  then have d: "dir = (if dir0 = [] then ''.'' else dir0)" and f: "base = file0"
    by (simp_all add: dir_def base_def)
  obtain r1 fs1 where mk: "mkdir_all w fs dir mode_0755 = (r1, fs1)"
    by (cases "mkdir_all w fs dir mode_0755")
  show thesis
  proof (cases r1)
    case (Some e)
    with mk sp d show thesis
      by (intro mkdir_failed[of e fs1]) (simp_all add: Download_def Let_def)
  next
    case None
    note mk' = mk[unfolded None]
    obtain r2 fs2 where ct: "CreateTemp w fs1 dir base = (r2, fs2)"
      by (cases "CreateTemp w fs1 dir base")
    show thesis
    proof (cases r2)
      case (Inl e)
      with ct have "fs2 = fs1" by (auto dest: CreateTemp_Inl)
      with mk' ct Inl sp d f show thesis
        by (intro temp_failed[of fs1 e]) (simp_all add: Download_def Let_def)
    next
      case (Inr tmp)
      from ct Inr CreateTemp_Inr[of w fs1 dir base tmp fs2]
      have fr: "files fs1 tmp = None" "dirs fs1 tmp = None"
        and fs2: "fs2 = fs1\<lparr>files := (files fs1)(tmp \<mapsto> [])\<rparr>" by simp_all
      have ne: "tmp \<noteq> path"
        using temp_name_ne_path[OF sp, of w fs1 tmp fs2] ct Inr d f by simp
      obtain r moved fs3 tr where dr: "download_request w fs2 cl u path tmp = (r, moved, fs3, tr)"
        by (cases "download_request w fs2 cl u path tmp")
      then have mv: "moved = (r = None)" by (rule download_request_moved)
      show thesis
        using mk' ct Inr fr ne dr mv sp d f fs2
        by (intro requested[of fs1 tmp r fs3 tr]) (simp_all add: Download_def Let_def)
    qed
  qed
qed

lemma download_decode_trace:
  assumes "download_decode w fs u path tmp resp = (res, moved, fs', tr)"
  shows "distinct tr \<and>
     (\<forall>c \<in> set tr. c = GzipNewReader \<or> c = Bzip2NewReader \<or> c = XzNewReader
        \<or> c \<in> range (Copy tmp) \<or> c = Close tmp \<or> c = Rename tmp path)"
  using assms
  by (auto simp: download_decode_def split: if_splits sum.splits prod.splits
           dest!: download_copy_trace)

lemma download_request_trace:
  assumes "download_request w fs cl u path tmp = (res, moved, fs', tr)"
  shows "distinct tr \<and>
     (\<forall>c \<in> set tr. c = NewRequest ''GET'' u \<or> c = ClientDo \<lparr>Method = ''GET'', URL = u\<rparr>
        \<or> c = GzipNewReader \<or> c = Bzip2NewReader \<or> c = XzNewReader
        \<or> c \<in> range (Copy tmp) \<or> c = Close tmp \<or> c = Rename tmp path \<or> c = CloseBody)"
  using assms
  by (auto simp: download_request_def Let_def
           split: option.split_asm sum.split_asm prod.split_asm
           dest!: download_decode_trace)

lemma download_request_Close:
  assumes "download_request w fs cl u path tmp = (res, moved, fs', tr)" "Close q \<in> set tr"
  shows "q = tmp"
  using download_request_trace[OF assms(1)] assms(2) by auto

lemma download_request_no_Remove:
  assumes "download_request w fs cl u path tmp = (res, moved, fs', tr)"
  shows "Remove q \<notin> set tr"
  using download_request_trace[OF assms(1)] by auto

lemma remove_files:
  "files (snd (remove w fs tmp)) = files fs \<or> files (snd (remove w fs tmp)) = (files fs)(tmp := None)"
  by (auto simp: remove_def split: option.splits)

lemma remove_dirs: "dirs (snd (remove w fs tmp)) = dirs fs"
  by (auto simp: remove_def split: option.splits)

lemma remove_other: "q \<noteq> tmp \<Longrightarrow> files (snd (remove w fs tmp)) q = files fs q"
  by (auto simp: remove_def split: option.splits)




lemma joinPath_prefix: "prefix dir (joinPath dir name)"
  by (simp add: joinPath_def)

lemma CreateTemp_prefix:
  assumes "CreateTemp w fs dir pattern = (Inr name, fs')" and "dir \<noteq> []"
  shows "prefix dir name"
proof -
  from CreateTemp_name[OF assms] obtain pre suf r where
    "name = joinPath dir pre @ uitoa r @ suf" by blast
  then show ?thesis using joinPath_prefix[of dir pre] by (metis prefix_prefix)
qed

lemma Split_dir_empty_or_sep: "fst (Split p) = [] \<or> IsPathSeparator (last (fst (Split p)))"
  using Split_dir_last[of p "fst (Split p)" "snd (Split p)"] by auto

lemma decompress_copy_eq: "decompress_copy = download_copy"
  by (intro ext) (unfold decompress_copy_def download_copy_def, rule refl)

lemma decompress_decode_eq: "decompress_decode = download_decode"
  by (intro ext) (unfold decompress_decode_def download_decode_def decompress_copy_eq, rule refl)

lemma decompress_request_eq: "decompress_request = download_request"
  by (intro ext) (unfold decompress_request_def download_request_def decompress_decode_eq, rule refl)

lemma download_decode_status:
  "download_decode w fs u path tmp (resp\<lparr>StatusCode := code\<rparr>) = download_decode w fs u path tmp resp"
  by (simp add: download_decode_def)

lemma download_request_status:
  "download_request w fs (with_status code cl) u path tmp = download_request w fs cl u path tmp"
  by (simp add: download_request_def with_status_def Let_def download_decode_status
           split: option.split sum.split)

lemma Download_status: "Download w fs (with_status code cl) u path = Download w fs cl u path"
  by (unfold Download_def download_request_status, rule refl)

lemma selected_unique: "selected w u resp r \<Longrightarrow> selected w u resp r' \<Longrightarrow> r' = r"
  by (auto simp: selected_def split: if_splits)

lemma download_copy_Copy:
  "download_copy w fs path tmp r = (res, moved, fs', tr) \<Longrightarrow> Copy t r' \<in> set tr
     \<Longrightarrow> t = tmp \<and> r' = r"
  by (auto dest!: download_copy_trace)

lemma download_copy_has_Copy:
  "download_copy w fs path tmp r = (res, moved, fs', tr) \<Longrightarrow> Copy tmp r \<in> set tr"
  by (auto dest!: download_copy_trace)

lemma download_copy_ok:
  assumes "download_copy w fs path tmp r = (res, moved, fs', tr)"
    and "snd r = None" "write_err w tmp = None" "close_err w tmp = None"
    and "rename_err w tmp path = None" "files fs tmp \<noteq> None"
  shows "res = None"
  using assms
  by (auto simp: download_copy_def io_copy_def rename_def Let_def
           split: prod.split_asm option.split_asm if_splits)

lemma download_copy_read_error:
  assumes "download_copy w fs path tmp r = (res, moved, fs', tr)"
    and "snd r = Some e" "write_err w tmp = None"
  shows "res = Some e"
  using assms
  by (auto simp: download_copy_def io_copy_def Let_def
           split: prod.split_asm option.split_asm if_splits)

lemma download_decode_Copy:
  "download_decode w fs u path tmp resp = (res, moved, fs', tr) \<Longrightarrow> Copy t r \<in> set tr
     \<Longrightarrow> t = tmp \<and> selected w u resp r"
  by (auto simp: download_decode_def selected_def
           split: if_splits sum.split_asm prod.split_asm dest: download_copy_Copy)

lemma download_decode_has_Copy:
  "download_decode w fs u path tmp resp = (res, moved, fs', tr) \<Longrightarrow> selected w u resp r
     \<Longrightarrow> Copy tmp r \<in> set tr"
  by (auto simp: download_decode_def selected_def
           split: if_splits sum.split_asm prod.split_asm dest: download_copy_has_Copy)

lemma download_decode_ok:
  assumes "download_decode w fs u path tmp resp = (res, moved, fs', tr)"
    and "selected w u resp r"
    and "snd r = None" "write_err w tmp = None" "close_err w tmp = None"
    and "rename_err w tmp path = None" "files fs tmp \<noteq> None"
  shows "res = None"
  using assms
  by (auto simp: download_decode_def selected_def
           split: if_splits sum.split_asm prod.split_asm dest: download_copy_ok)

lemma download_decode_readers:
  assumes "download_decode w fs u path tmp resp = (res, moved, fs', tr)"
  shows "(GzipNewReader \<in> set tr \<longleftrightarrow> HasSuffix (Path u) ''gz'')
       \<and> (Bzip2NewReader \<in> set tr \<longleftrightarrow> \<not> HasSuffix (Path u) ''gz'' \<and> HasSuffix (Path u) ''bz2'')
       \<and> (XzNewReader \<in> set tr \<longleftrightarrow> \<not> HasSuffix (Path u) ''gz'' \<and> \<not> HasSuffix (Path u) ''bz2''
              \<and> HasSuffix (Path u) ''xz'')"
  using assms
  by (auto simp: download_decode_def
           split: if_splits sum.split_asm prod.split_asm dest!: download_copy_trace)

lemma download_decode_init_error:
  assumes "download_decode w fs u path tmp resp = (res, moved, fs', tr)"
    and "(HasSuffix (Path u) ''gz'' \<and> gzip_new_reader w (Body resp) = Inl e)
       \<or> (\<not> HasSuffix (Path u) ''gz'' \<and> \<not> HasSuffix (Path u) ''bz2''
            \<and> HasSuffix (Path u) ''xz'' \<and> xz_new_reader w (Body resp) = Inl e)"
  shows "res = Some e \<and> (\<forall>t r. Copy t r \<notin> set tr)"
  using assms
  by (auto simp: download_decode_def split: if_splits sum.split_asm prod.split_asm)

lemma download_request_responded:
  assumes "download_request w fs cl u path tmp = (res, moved, fs', tr)"
    and "ClientDo \<lparr>Method = ''GET'', URL = u\<rparr> \<in> set tr"
    and "cl \<lparr>Method = ''GET'', URL = u\<rparr> = Inr resp"
  shows "\<exists>tr'. download_decode w fs u path tmp resp = (res, moved, fs', tr')
            \<and> tr = [NewRequest ''GET'' u, ClientDo \<lparr>Method = ''GET'', URL = u\<rparr>] @ tr' @ [CloseBody]"
  using assms
  by (auto simp: download_request_def Let_def
           split: option.split_asm sum.split_asm prod.split_asm)

text \<open>What the trace of a call looks like once \<open>client.Do\<close> has answered.\<close>

lemma Download_responded:
  assumes "ClientDo \<lparr>Method = ''GET'', URL = u\<rparr> \<in> set (trace (Download w fs cl u path))"
    and "cl \<lparr>Method = ''GET'', URL = u\<rparr> = Inr resp"
  obtains fs1 tmp res fs3 tr' where
    "files fs1 = files fs" "files fs1 tmp = None" "tmp \<noteq> path"
    "download_decode w (fs1\<lparr>files := (files fs1)(tmp \<mapsto> [])\<rparr>) u path tmp resp
       = (res, res = None, fs3, tr')"
    "err (Download w fs cl u path) = res"
    "fsys (Download w fs cl u path) = (if res \<noteq> None then snd (remove w fs3 tmp) else fs3)"
    "set (trace (Download w fs cl u path))
       = {MkdirAll (if fst (Split path) = [] then ''.'' else fst (Split path)) mode_0755,
          TempFile (if fst (Split path) = [] then ''.'' else fst (Split path)) (snd (Split path)),
          NewRequest ''GET'' u, ClientDo \<lparr>Method = ''GET'', URL = u\<rparr>, CloseBody, Close tmp}
         \<union> set tr' \<union> (if res \<noteq> None then {Remove tmp} else {})"
proof (cases w fs cl u path rule: Download_cases)
  case (mkdir_failed e fs1)
  with assms show ?thesis by simp
next
  case (temp_failed e fs1)
  with assms show ?thesis by simp
next
  case (requested fs1 tmp r fs3 tr)
  have f1: "files fs1 = files fs"
    using mkdir_all_files[of w fs _ mode_0755] requested(1) by (metis snd_conv)
  have "ClientDo \<lparr>Method = ''GET'', URL = u\<rparr> \<in> set tr"
    using assms(1) requested(7) by (auto split: if_splits)
  from download_request_responded[OF requested(6) this assms(2)] obtain tr' where
    dd: "download_decode w (fs1\<lparr>files := (files fs1)(tmp \<mapsto> [])\<rparr>) u path tmp resp
           = (r, r = None, fs3, tr')"
    and tr: "tr = [NewRequest ''GET'' u, ClientDo \<lparr>Method = ''GET'', URL = u\<rparr>] @ tr' @ [CloseBody]"
    by blast
  show ?thesis
    by (rule that[of fs1 tmp r fs3 tr'])
       (use f1 requested dd tr in \<open>auto split: if_splits\<close>)
qed

lemma HasSuffix_gz_not_bz2: "HasSuffix s ''gz'' \<Longrightarrow> \<not> HasSuffix s ''bz2''"
  by (auto simp: HasSuffix_iff_suffix suffix_def)

lemma HasSuffix_gz_not_xz: "HasSuffix s ''gz'' \<Longrightarrow> \<not> HasSuffix s ''xz''"
  by (auto simp: HasSuffix_iff_suffix suffix_def)

lemma HasSuffix_bz2_not_xz: "HasSuffix s ''bz2'' \<Longrightarrow> \<not> HasSuffix s ''xz''"
  by (auto simp: HasSuffix_iff_suffix suffix_def)

lemma io_copy_err: "fst (io_copy w fs dst r) = fst (io_copy w fs0 dst r)"
  by (simp add: io_copy_def Let_def split: option.split prod.split)

lemma download_copy_errors:
  assumes "download_copy w fs path tmp r = (res, moved, fs', tr)"
  shows "(fst (io_copy w fs0 tmp r) = Some e \<longrightarrow> res = Some e)
       \<and> (fst (io_copy w fs0 tmp r) = None \<and> close_err w tmp = Some e
            \<longrightarrow> res = Some (Wrapf ''write and close temporary file'' e))
       \<and> (Rename tmp path \<in> set tr \<and> rename_err w tmp path = Some e \<longrightarrow> res = Some e)"
  using assms io_copy_err[of w fs tmp r fs0]
  by (auto simp: download_copy_def rename_def split: prod.split_asm option.split_asm)

lemma download_decode_errors:
  assumes "download_decode w fs u path tmp resp = (res, moved, fs', tr)"
  shows "(Copy t r \<in> set tr \<and> fst (io_copy w fs0 t r) = Some e \<longrightarrow> res = Some e)
       \<and> (Copy t r \<in> set tr \<and> fst (io_copy w fs0 t r) = None \<and> close_err w t = Some e
            \<longrightarrow> res = Some (Wrapf ''write and close temporary file'' e))
       \<and> (Rename t path \<in> set tr \<and> rename_err w t path = Some e \<longrightarrow> res = Some e)"
proof -
  have k: "res = res' \<and> set tr \<subseteq> insert GzipNewReader (insert Bzip2NewReader (insert XzNewReader (set tr')))
           \<longrightarrow> ?thesis"
    if "download_copy w fs path tmp r' = (res', moved', fs'', tr')" for r' res' moved' fs'' tr'
    using download_copy_errors[OF that, of fs0 e] download_copy_trace[OF that]
    by auto
  show ?thesis
    using assms
    apply (simp add: download_decode_def split: if_splits sum.split_asm prod.split_asm)
    using k apply fastforce+
    done
qed


lemma download_request_errors:
  assumes "download_request w fs cl u path tmp = (res, moved, fs', tr)"
  shows "(new_request_err w ''GET'' u = Some e \<longrightarrow> res = Some e)
       \<and> (ClientDo \<lparr>Method = ''GET'', URL = u\<rparr> \<in> set tr
            \<and> cl \<lparr>Method = ''GET'', URL = u\<rparr> = Inl e \<longrightarrow> res = Some e)
       \<and> (Copy t r \<in> set tr \<and> fst (io_copy w fs0 t r) = Some e \<longrightarrow> res = Some e)
       \<and> (Copy t r \<in> set tr \<and> fst (io_copy w fs0 t r) = None \<and> close_err w t = Some e
            \<longrightarrow> res = Some (Wrapf ''write and close temporary file'' e))
       \<and> (Rename t path \<in> set tr \<and> rename_err w t path = Some e \<longrightarrow> res = Some e)"
proof (cases "new_request_err w ''GET'' u")
  case (Some e')
  with assms show ?thesis by (auto simp: download_request_def)
next
  case None
  note nr = None
  show ?thesis
  proof (cases "cl \<lparr>Method = ''GET'', URL = u\<rparr>")
    case (Inl e')
    with assms nr show ?thesis by (auto simp: download_request_def Let_def)
  next
    case (Inr resp)
    obtain tr' where dd: "download_decode w fs u path tmp resp = (res, moved, fs', tr')"
      and tr: "tr = [NewRequest ''GET'' u, ClientDo \<lparr>Method = ''GET'', URL = u\<rparr>] @ tr' @ [CloseBody]"
      using assms nr Inr by (auto simp: download_request_def Let_def split: prod.split_asm)
    show ?thesis
      using download_decode_errors[OF dd, of t r fs0 e] tr nr Inr by auto
  qed
qed

lemma Download_trace_requested:
  assumes "trace (Download w fs cl u path) = [MkdirAll d m, TempFile d b] @ tr @ rm @ [Close tmp]"
    and "set rm \<subseteq> {Remove tmp}"
  shows "(NewRequest x y \<in> set (trace (Download w fs cl u path)) \<longleftrightarrow> NewRequest x y \<in> set tr)
       \<and> (ClientDo q \<in> set (trace (Download w fs cl u path)) \<longleftrightarrow> ClientDo q \<in> set tr)
       \<and> (Copy t r \<in> set (trace (Download w fs cl u path)) \<longleftrightarrow> Copy t r \<in> set tr)
       \<and> (Rename t p \<in> set (trace (Download w fs cl u path)) \<longleftrightarrow> Rename t p \<in> set tr)"
  using assms by auto

lemma path_parent_prefix: "prefix (path_parent p) p"
proof -
  let ?a = "dropWhile IsPathSeparator (rev p)"
  let ?b = "dropWhile (\<lambda>c. \<not> IsPathSeparator c) ?a"
  have "suffix ?b ?a" by (rule suffix_dropWhile)
  moreover have "suffix ?a (rev p)" by (rule suffix_dropWhile)
  ultimately have "suffix ?b (rev p)" by (rule suffix_order.trans)
  then have "prefix (rev ?b) (rev (rev p))" by (simp only: suffix_to_prefix)
  then show ?thesis by (simp add: path_parent_def)
qed

lemma mkdir_all_dirs_changed:
  "dirs (snd (mkdir_all w fs p perm)) q \<noteq> dirs fs q \<Longrightarrow> prefix q p"
proof (induction w fs p perm rule: mkdir_all.induct)
  case (1 w fs p perm)
  show ?case
  proof (cases "dirs fs p \<noteq> None \<or> files fs p \<noteq> None")
    case True
    then show ?thesis using "1.prems"
      by (subst (asm) mkdir_all.simps) (auto split: if_splits)
  next
    case False
    show ?thesis
    proof (cases "path_parent p \<noteq> []")
      case True
      have "q = p \<or> dirs (snd (mkdir_all w fs (path_parent p) perm)) q \<noteq> dirs fs q"
        using "1.prems" False True
        by (subst (asm) mkdir_all.simps) (auto split: prod.splits option.splits if_splits)
      then show ?thesis
      proof
        assume "q = p" then show ?thesis by simp
      next
        assume "dirs (snd (mkdir_all w fs (path_parent p) perm)) q \<noteq> dirs fs q"
        then have "prefix q (path_parent p)" using "1.IH" False True by simp
        then show ?thesis using path_parent_prefix[of p] by (rule prefix_order.trans)
      qed
    next
      case n: False
      have "q = p"
        using "1.prems" False n
        by (subst (asm) mkdir_all.simps) (auto split: prod.splits option.splits if_splits)
      then show ?thesis by simp
    qed
  qed
qed

lemma Download_dirs:
  "dirs (fsys (Download w fs cl u path))
     = dirs (snd (mkdir_all w fs (if fst (Split path) = [] then ''.'' else fst (Split path)) mode_0755))"
proof (cases w fs cl u path rule: Download_cases)
  case (mkdir_failed e fs1)
  then show ?thesis by simp
next
  case (temp_failed e fs1)
  then show ?thesis by simp
next
  case (requested fs1 tmp r fs3 tr)
  then show ?thesis
    using remove_dirs[of w fs3 tmp] download_request_dirs[OF requested(6)] by simp
qed

lemma Download_dirs_at_destination:
  assumes "snd (Split path) \<noteq> []" and "path \<noteq> ''.''"
  shows "dirs (fsys (Download w fs cl u path)) path = dirs fs path"
proof (rule ccontr)
  let ?dir = "if fst (Split path) = [] then ''.'' else fst (Split path)"
  assume "dirs (fsys (Download w fs cl u path)) path \<noteq> dirs fs path"
  then have "dirs (snd (mkdir_all w fs ?dir mode_0755)) path \<noteq> dirs fs path"
    unfolding Download_dirs .
  then have p: "prefix path ?dir" by (rule mkdir_all_dirs_changed)
  have sp: "path = fst (Split path) @ snd (Split path)"
    by (rule Split_append) simp
  show False
  proof (cases "fst (Split path) = []")
    case True
    with p have "prefix path ''.''" by simp
    then have "path = [] \<or> path = ''.''" by (cases path) auto
    with assms sp True show False by auto
  next
    case False
    with p have "prefix path (fst (Split path))" by simp
    then have "length path \<le> length (fst (Split path))" by (rule prefix_length_le)
    moreover have "length path = length (fst (Split path)) + length (snd (Split path))"
      using sp by (metis length_append)
    ultimately show False using assms(1) by simp
  qed
qed

text \<open>A prefix that ends in a separator and is followed by a path element lies within the parent.\<close>

lemma path_parent_covers:
  assumes "p = q @ r" "q \<noteq> []" "IsPathSeparator (last q)" "r \<noteq> []" "\<not> IsPathSeparator (hd r)"
  shows "prefix q (path_parent p)"
proof -
  let ?a = "dropWhile IsPathSeparator (rev r)"
  have hr: "hd r \<in> set (rev r)" using assms(4) by simp
  have rp: "rev p = rev r @ rev q" using assms(1) by simp
  have d1: "dropWhile IsPathSeparator (rev p) = ?a @ rev q"
    unfolding rp using hr assms(5) by (rule dropWhile_append1)
  have hq: "rev q = last q # rev (butlast q)"
    using assms(2) by (metis append_butlast_last_id rev.simps(2) rev_append rev_rev_ident append_Cons append_Nil)
  show ?thesis
  proof (cases "\<exists>x \<in> set ?a. IsPathSeparator x")
    case True
    then obtain x where x: "x \<in> set ?a" "\<not> \<not> IsPathSeparator x" by auto
    have "dropWhile (\<lambda>c. \<not> IsPathSeparator c) (?a @ rev q)
            = dropWhile (\<lambda>c. \<not> IsPathSeparator c) ?a @ rev q"
      using x by (rule dropWhile_append1)
    then have "path_parent p = q @ rev (dropWhile (\<lambda>c. \<not> IsPathSeparator c) ?a)"
      by (simp add: path_parent_def d1)
    then show ?thesis by simp
  next
    case False
    then have "\<And>x. x \<in> set ?a \<Longrightarrow> \<not> IsPathSeparator x" by blast
    then have "dropWhile (\<lambda>c. \<not> IsPathSeparator c) (?a @ rev q)
            = dropWhile (\<lambda>c. \<not> IsPathSeparator c) (rev q)"
      by (rule dropWhile_append2)
    also have "\<dots> = rev q"
    proof -
      have "dropWhile (\<lambda>c. \<not> IsPathSeparator c) (last q # rev (butlast q))
              = last q # rev (butlast q)"
        using assms(3) by simp
      then show ?thesis unfolding hq[symmetric] .
    qed
    finally have "path_parent p = q" by (simp add: path_parent_def d1)
    then show ?thesis by simp
  qed
qed

lemma path_parent_rest:
  assumes "p = q @ r" "q \<noteq> []" "IsPathSeparator (last q)" "r \<noteq> []" "\<not> IsPathSeparator (hd r)"
  shows "path_parent p = q \<or> (\<exists>r2. path_parent p = q @ r2 \<and> r2 \<noteq> [] \<and> \<not> IsPathSeparator (hd r2))"
proof -
  from path_parent_covers[OF assms] obtain r2 where r2: "path_parent p = q @ r2"
    by (auto simp: prefix_def)
  from path_parent_prefix[of p] obtain t where "p = path_parent p @ t" by (auto simp: prefix_def)
  with r2 assms(1) have "r = r2 @ t" by simp
  then have "r2 \<noteq> [] \<Longrightarrow> hd r2 = hd r" by simp
  with r2 assms(5) show ?thesis by (cases "r2 = []") auto
qed

lemma mkdir_all_tree:
  assumes "fst (mkdir_all w fs p perm) = None"
    and "p = q @ r" "q \<noteq> []" "IsPathSeparator (last q)" "r \<noteq> []" "\<not> IsPathSeparator (hd r)"
  shows "dirs (snd (mkdir_all w fs p perm)) q \<noteq> None
       \<or> (\<exists>q'. prefix q q' \<and> prefix q' p \<and> dirs fs q' \<noteq> None)"
  using assms
proof (induction w fs p perm arbitrary: r rule: mkdir_all.induct)
  case (1 w fs p perm)
  show ?case
  proof (cases "dirs fs p \<noteq> None")
    case True
    moreover have "prefix q p" using "1.prems"(2) by simp
    ultimately show ?thesis by blast
  next
    case False
    note nd = False
    have nf: "files fs p = None"
      using "1.prems"(1) nd by (subst (asm) mkdir_all.simps) (auto split: if_splits)
    have cov: "prefix q (path_parent p)"
      using "1.prems"(2-6) by (rule path_parent_covers)
    then have pne: "path_parent p \<noteq> []" using "1.prems"(3) by auto
    have ok: "fst (mkdir_all w fs (path_parent p) perm) = None"
      using "1.prems"(1) nd nf pne
      by (subst (asm) mkdir_all.simps) (auto split: prod.splits option.splits if_splits)
    have mono: "dirs (snd (mkdir_all w fs (path_parent p) perm)) q \<noteq> None
                  \<Longrightarrow> dirs (snd (mkdir_all w fs p perm)) q \<noteq> None"
      using "1.prems"(1) nd nf pne
      by (subst mkdir_all.simps, subst (asm) (2) mkdir_all.simps)
         (auto split: prod.splits option.splits if_splits)
    from path_parent_rest[OF "1.prems"(2-6)]
    show ?thesis
    proof
      assume e: "path_parent p = q"
      have "dirs (snd (mkdir_all w fs (path_parent p) perm)) (path_parent p) \<noteq> None"
        using ok by (rule mkdir_all_ok)
      then show ?thesis using mono e by simp
    next
      assume "\<exists>r2. path_parent p = q @ r2 \<and> r2 \<noteq> [] \<and> \<not> IsPathSeparator (hd r2)"
      then obtain r2 where r2: "path_parent p = q @ r2" "r2 \<noteq> []" "\<not> IsPathSeparator (hd r2)"
        by blast
      from "1.IH"[OF _ _ pne ok r2(1) "1.prems"(3,4) r2(2,3)] nd nf
      have "dirs (snd (mkdir_all w fs (path_parent p) perm)) q \<noteq> None
          \<or> (\<exists>q'. prefix q q' \<and> prefix q' (path_parent p) \<and> dirs fs q' \<noteq> None)"
        by simp
      then show ?thesis
      proof
        assume "dirs (snd (mkdir_all w fs (path_parent p) perm)) q \<noteq> None"
        then show ?thesis using mono by simp
      next
        assume "\<exists>q'. prefix q q' \<and> prefix q' (path_parent p) \<and> dirs fs q' \<noteq> None"
        then obtain q' where "prefix q q'" "prefix q' (path_parent p)" "dirs fs q' \<noteq> None"
          by blast
        moreover then have "prefix q' p"
          using path_parent_prefix[of p] by (meson prefix_order.trans)
        ultimately show ?thesis by blast
      qed
    qed
  qed
qed

lemma path_parent_shorter:
  assumes "path_parent p \<noteq> []"
  shows "length (path_parent p) < length p"
proof -
  from path_parent_prefix[of p] obtain t where t: "p = path_parent p @ t"
    by (auto simp: prefix_def)
  have "t \<noteq> []"
  proof
    assume "t = []"
    with t have e: "path_parent p = p" by simp
    with assms obtain x xs where r: "rev p = x # xs" by (cases "rev p") auto
    have "length (path_parent p) \<le> length xs"
    proof (cases "IsPathSeparator x")
      case True
      have "length (dropWhile (\<lambda>c. \<not> IsPathSeparator c) (dropWhile IsPathSeparator xs))
              \<le> length (dropWhile IsPathSeparator xs)" by (rule length_dropWhile_le)
      also have "\<dots> \<le> length xs" by (rule length_dropWhile_le)
      finally show ?thesis using True r by (simp add: path_parent_def)
    next
      case False
      have "length (dropWhile (\<lambda>c. \<not> IsPathSeparator c) xs) \<le> length xs"
        by (rule length_dropWhile_le)
      then show ?thesis using False r by (simp add: path_parent_def)
    qed
    moreover have "length p = Suc (length xs)" using r by (metis length_Cons length_rev)
    ultimately show False using e by simp
  qed
  then show ?thesis using t by (metis length_append length_greater_0_conv less_add_same_cancel1)
qed

lemma closed_down:
  assumes cl: "\<forall>q. dirs fs q \<noteq> None \<and> path_parent q \<noteq> [] \<longrightarrow> dirs fs (path_parent q) \<noteq> None"
  shows "dirs fs q' \<noteq> None \<Longrightarrow> q' = q @ r \<Longrightarrow> q \<noteq> [] \<Longrightarrow> IsPathSeparator (last q)
           \<Longrightarrow> r \<noteq> [] \<Longrightarrow> \<not> IsPathSeparator (hd r) \<Longrightarrow> dirs fs q \<noteq> None"
proof (induction "length q'" arbitrary: q' r rule: less_induct)
  case less
  from path_parent_covers[OF less.prems(2-6)] less.prems(3)
  have pne: "path_parent q' \<noteq> []" by auto
  then have ex: "dirs fs (path_parent q') \<noteq> None" using cl less.prems(1) by blast
  from path_parent_rest[OF less.prems(2-6)]
  show ?case
  proof
    assume "path_parent q' = q"
    with ex show ?thesis by simp
  next
    assume "\<exists>r2. path_parent q' = q @ r2 \<and> r2 \<noteq> [] \<and> \<not> IsPathSeparator (hd r2)"
    then obtain r2 where r2: "path_parent q' = q @ r2" "r2 \<noteq> []" "\<not> IsPathSeparator (hd r2)"
      by blast
    show ?thesis
      using less.hyps[OF path_parent_shorter[OF pne] ex r2(1) less.prems(3,4) r2(2,3)] .
  qed
qed

lemma mkdir_all_tree_closed:
  assumes "fst (mkdir_all w fs p perm) = None"
    and cl: "\<forall>q. dirs fs q \<noteq> None \<and> path_parent q \<noteq> [] \<longrightarrow> dirs fs (path_parent q) \<noteq> None"
    and "p = q @ r" "q \<noteq> []" "IsPathSeparator (last q)" "r \<noteq> []" "\<not> IsPathSeparator (hd r)"
  shows "dirs (snd (mkdir_all w fs p perm)) q \<noteq> None"
proof -
  from mkdir_all_tree[OF assms(1,3-7)]
  show ?thesis
  proof
    assume "dirs (snd (mkdir_all w fs p perm)) q \<noteq> None" then show ?thesis .
  next
    assume "\<exists>q'. prefix q q' \<and> prefix q' p \<and> dirs fs q' \<noteq> None"
    then obtain q' r' t where q': "q' = q @ r'" "p = q' @ t" "dirs fs q' \<noteq> None"
      by (auto simp: prefix_def)
    then have rr: "r = r' @ t" using assms(3) by simp
    have "dirs fs q \<noteq> None"
    proof (cases "r' = []")
      case True
      with q' show ?thesis by simp
    next
      case False
      then have "hd r' = hd r" using rr by simp
      then show ?thesis
        using closed_down[OF cl q'(3,1) assms(4,5) False] assms(7) by simp
    qed
    then obtain m where "dirs fs q = Some m" by blast
    then have "dirs (snd (mkdir_all w fs p perm)) q = Some m" by (rule mkdir_all_dirs_mono)
    then show ?thesis by simp
  qed
qed

lemma Download_tree:
  assumes ok: "fst (mkdir_all w fs (if fst (Split path) = [] then ''.'' else fst (Split path)) mode_0755) = None"
  shows "(\<forall>q r. (if fst (Split path) = [] then ''.'' else fst (Split path)) = q @ r \<and> q \<noteq> []
              \<and> IsPathSeparator (last q) \<and> (r = [] \<or> \<not> IsPathSeparator (hd r))
           \<longrightarrow> dirs (fsys (Download w fs cl u path)) q \<noteq> None
               \<or> (\<exists>q'. prefix q q'
                      \<and> prefix q' (if fst (Split path) = [] then ''.'' else fst (Split path))
                      \<and> dirs fs q' \<noteq> None))
      \<and> ((\<forall>q. dirs fs q \<noteq> None \<and> path_parent q \<noteq> [] \<longrightarrow> dirs fs (path_parent q) \<noteq> None)
           \<longrightarrow> (\<forall>q r. (if fst (Split path) = [] then ''.'' else fst (Split path)) = q @ r \<and> q \<noteq> []
                     \<and> IsPathSeparator (last q) \<and> (r = [] \<or> \<not> IsPathSeparator (hd r))
                 \<longrightarrow> dirs (fsys (Download w fs cl u path)) q \<noteq> None))"
proof -
  let ?dir = "if fst (Split path) = [] then ''.'' else fst (Split path)"
  let ?after = "snd (mkdir_all w fs ?dir mode_0755)"
  have D: "dirs (fsys (Download w fs cl u path)) = dirs ?after" by (rule Download_dirs)
  have leaf: "dirs ?after ?dir \<noteq> None" using ok by (rule mkdir_all_ok)
  have a: "dirs ?after q \<noteq> None \<or> (\<exists>q'. prefix q q' \<and> prefix q' ?dir \<and> dirs fs q' \<noteq> None)"
    if "?dir = q @ r" "q \<noteq> []" "IsPathSeparator (last q)" "r = [] \<or> \<not> IsPathSeparator (hd r)"
    for q r
  proof (cases "r = []")
    case True
    with that(1) leaf show ?thesis by simp
  next
    case False
    with that(4) have "\<not> IsPathSeparator (hd r)" by simp
    from mkdir_all_tree[OF ok that(1,2,3) False this] show ?thesis .
  qed
  have b: "dirs ?after q \<noteq> None"
    if cl: "\<forall>q. dirs fs q \<noteq> None \<and> path_parent q \<noteq> [] \<longrightarrow> dirs fs (path_parent q) \<noteq> None"
      and "?dir = q @ r" "q \<noteq> []" "IsPathSeparator (last q)" "r = [] \<or> \<not> IsPathSeparator (hd r)"
    for q r
  proof (cases "r = []")
    case True
    with that(2) leaf show ?thesis by simp
  next
    case False
    with that(5) have "\<not> IsPathSeparator (hd r)" by simp
    from mkdir_all_tree_closed[OF ok cl that(2,3,4) False this] show ?thesis .
  qed
  show ?thesis unfolding D using a b by blast
qed

lemma Download_preparation:
  "path = fst (Split path) @ snd (Split path)
   \<and> \<not> list_ex IsPathSeparator (snd (Split path))
   \<and> (fst (Split path) = [] \<or> IsPathSeparator (last (fst (Split path))))
   \<and> (\<exists>dir rest. dir = (if fst (Split path) = [] then ''.'' else fst (Split path)) \<and> dir \<noteq> []
        \<and> trace (Download w fs cl u path) = MkdirAll dir mode_0755 # rest
        \<and> (\<forall>d m. MkdirAll d m \<notin> set rest)
        \<and> ((rest = [] \<and> fst (mkdir_all w fs dir mode_0755) \<noteq> None)
            \<or> (\<exists>rest'. rest = TempFile dir (snd (Split path)) # rest'
                  \<and> (\<forall>d b. TempFile d b \<notin> set rest')
                  \<and> fst (mkdir_all w fs dir mode_0755) = None
                  \<and> dirs (fsys (Download w fs cl u path)) dir \<noteq> None))
        \<and> (\<forall>tmp. Close tmp \<in> set (trace (Download w fs cl u path)) \<longrightarrow> prefix dir tmp))
   \<and> (\<forall>q m. dirs (fsys (Download w fs cl u path)) q = Some m
          \<longrightarrow> dirs fs q = Some m \<or> (dirs fs q = None \<and> m = mode_0755))
   \<and> mode_0755 = 493"
proof -
  let ?D = "Download w fs cl u path"
  let ?dir = "if fst (Split path) = [] then ''.'' else fst (Split path)"
  let ?base = "snd (Split path)"
  have sp: "Split path = (fst (Split path), snd (Split path))" by simp
  have A: "path = fst (Split path) @ snd (Split path)" using Split_append[OF sp] .
  have B: "\<not> list_ex IsPathSeparator (snd (Split path))" using Split_file_no_sep[OF sp] .
  have C: "fst (Split path) = [] \<or> IsPathSeparator (last (fst (Split path)))"
    by (rule Split_dir_empty_or_sep)
  have M: "mode_0755 = 493" by (simp add: mode_0755_def)
  have ne: "?dir \<noteq> []" by simp
  have E: "(\<exists>rest. trace ?D = MkdirAll ?dir mode_0755 # rest
        \<and> (\<forall>d m. MkdirAll d m \<notin> set rest)
        \<and> ((rest = [] \<and> fst (mkdir_all w fs ?dir mode_0755) \<noteq> None)
            \<or> (\<exists>rest'. rest = TempFile ?dir ?base # rest'
                  \<and> (\<forall>d b. TempFile d b \<notin> set rest')
                  \<and> fst (mkdir_all w fs ?dir mode_0755) = None
                  \<and> dirs (fsys ?D) ?dir \<noteq> None))
        \<and> (\<forall>tmp. Close tmp \<in> set (trace ?D) \<longrightarrow> prefix ?dir tmp))
     \<and> (\<forall>q m. dirs (fsys ?D) q = Some m
          \<longrightarrow> dirs fs q = Some m \<or> (dirs fs q = None \<and> m = mode_0755))"
  proof (cases w fs cl u path rule: Download_cases)
    case (mkdir_failed e fs1)
    have "\<forall>q m. dirs fs1 q = Some m \<longrightarrow> dirs fs q = Some m \<or> (dirs fs q = None \<and> m = mode_0755)"
      using mkdir_all_dirs[of w fs ?dir mode_0755] mkdir_failed(1) by simp
    then show ?thesis using mkdir_failed by simp
  next
    case (temp_failed e fs1)
    have ok: "fst (mkdir_all w fs ?dir mode_0755) = None" using temp_failed(1) by simp
    have "dirs fs1 ?dir \<noteq> None" using mkdir_all_ok[OF ok] temp_failed(1) by simp
    moreover have "\<forall>q m. dirs fs1 q = Some m \<longrightarrow> dirs fs q = Some m \<or> (dirs fs q = None \<and> m = mode_0755)"
      using mkdir_all_dirs[of w fs ?dir mode_0755] temp_failed(1) by simp
    ultimately show ?thesis using temp_failed by simp
  next
    case (requested fs1 tmp r fs3 tr)
    note dr = requested(6)
    have ok: "fst (mkdir_all w fs ?dir mode_0755) = None" using requested(1) by simp
    have d1: "dirs fs1 ?dir \<noteq> None" using mkdir_all_ok[OF ok] requested(1) by simp
    have nw: "\<forall>q m. dirs fs1 q = Some m \<longrightarrow> dirs fs q = Some m \<or> (dirs fs q = None \<and> m = mode_0755)"
      using mkdir_all_dirs[of w fs ?dir mode_0755] requested(1) by simp
    have dD: "dirs (fsys ?D) = dirs fs1"
      using requested(7) remove_dirs[of w fs3 tmp] download_request_dirs[OF dr] by simp
    have pf: "prefix ?dir tmp" using CreateTemp_prefix[OF requested(2) ne] .
    let ?rest' = "tr @ (if r \<noteq> None then [Remove tmp] else []) @ [Close tmp]"
    have trD: "trace ?D = MkdirAll ?dir mode_0755 # TempFile ?dir ?base # ?rest'"
      using requested(7) by simp
    have n1: "\<forall>d m. MkdirAll d m \<notin> set ?rest'" using download_request_trace[OF dr] by auto
    have n2: "\<forall>d b. TempFile d b \<notin> set ?rest'" using download_request_trace[OF dr] by auto
    have cl: "\<forall>q. Close q \<in> set (trace ?D) \<longrightarrow> prefix ?dir q"
      using trD download_request_Close[OF dr] pf by auto
    show ?thesis
      using trD n1 n2 ok d1 nw dD cl by auto
  qed
  show ?thesis using A B C M ne E by blast
qed

section \<open>Claims\<close>

text \<open>
  C1. When Download returns success, the file at the destination path holds exactly the
  bytes the selected reader yielded (the gzip, bzip2 or xz reader's output, or the raw
  response body when no suffix matched), the set of files differs from the one before the
  call only at the destination path, and the temporary file is gone.
\<close>

theorem download_success_content:
  assumes "err (Download w fs cl u path) = None"
  shows "\<exists>resp data. cl \<lparr>Method = ''GET'', URL = u\<rparr> = Inr resp
     \<and> (if HasSuffix (Path u) ''gz'' then gzip_new_reader w (Body resp) = Inr (data, None)
         else if HasSuffix (Path u) ''bz2'' then bzip2_new_reader w (Body resp) = (data, None)
         else if HasSuffix (Path u) ''xz'' then xz_new_reader w (Body resp) = Inr (data, None)
         else Body resp = (data, None))
     \<and> files (fsys (Download w fs cl u path)) = (files fs)(path \<mapsto> data)
     \<and> (\<forall>tmp. Close tmp \<in> set (trace (Download w fs cl u path))
            \<longrightarrow> tmp \<noteq> path \<and> files (fsys (Download w fs cl u path)) tmp = None)"
proof (cases w fs cl u path rule: Download_cases)
  case (mkdir_failed e fs1)
  with assms show ?thesis by simp
next
  case (temp_failed e fs1)
  with assms show ?thesis by simp
next
  case (requested fs1 tmp r fs3 tr)
  let ?fs2 = "fs1\<lparr>files := (files fs1)(tmp \<mapsto> [])\<rparr>"
  from assms requested(7) have r: "r = None" by simp
  have f1: "files fs1 = files fs"
    using mkdir_all_files[of w fs _ mode_0755] requested(1) by (metis snd_conv)
  from requested(6) r have dr: "download_request w ?fs2 cl u path tmp = (None, True, fs3, tr)"
    by simp
  from download_request_success[OF dr] obtain resp rd where
    cl: "cl \<lparr>Method = ''GET'', URL = u\<rparr> = Inr resp" and
    sel: "selected w u resp rd" and eof: "snd rd = None" and
    f3: "files fs3 = ((files ?fs2)(tmp := None))(path \<mapsto> fst rd)"
    by auto
  have rd: "rd = (fst rd, None)" using eof by (metis prod.collapse)
  have "(files fs1)(tmp := None) = files fs1"
    using requested(3) by (simp add: fun_upd_idem)
  then have f3': "files fs3 = (files fs)(path \<mapsto> fst rd)"
    using f3 f1 by simp
  have out: "fsys (Download w fs cl u path) = fs3"
    "trace (Download w fs cl u path) =
       [MkdirAll (if fst (Split path) = [] then ''.'' else fst (Split path)) mode_0755,
        TempFile (if fst (Split path) = [] then ''.'' else fst (Split path)) (snd (Split path))]
       @ tr @ [Close tmp]"
    using requested(7) r by simp_all
  have cls: "\<forall>q. Close q \<in> set (trace (Download w fs cl u path)) \<longrightarrow> q = tmp"
    using out(2) download_request_Close[OF dr] by auto
  have gone: "files fs3 tmp = None"
    using f3' requested(3,5) f1 by simp
  have s: "if HasSuffix (Path u) ''gz'' then gzip_new_reader w (Body resp) = Inr (fst rd, None)
         else if HasSuffix (Path u) ''bz2'' then bzip2_new_reader w (Body resp) = (fst rd, None)
         else if HasSuffix (Path u) ''xz'' then xz_new_reader w (Body resp) = Inr (fst rd, None)
         else Body resp = (fst rd, None)"
    using sel rd unfolding selected_def by simp
  have tmps: "\<forall>q. Close q \<in> set (trace (Download w fs cl u path))
            \<longrightarrow> q \<noteq> path \<and> files (fsys (Download w fs cl u path)) q = None"
    using cls gone requested(5) out(1) by auto
  have fin: "files (fsys (Download w fs cl u path)) = (files fs)(path \<mapsto> fst rd)"
    using f3' out(1) by simp
  show ?thesis
    using cl s fin tmps by blast
qed

theorem download_success_content_witness:
  "err (Download quiet_world empty_fs (serve 200 ([CHR 0x1F, CHR 0x8B] @ ''hello world''))
          (url_of_path ''/data.gz'') ''./out/data.txt'') = None
   \<and> files (fsys (Download quiet_world empty_fs (serve 200 ([CHR 0x1F, CHR 0x8B] @ ''hello world''))
          (url_of_path ''/data.gz'') ''./out/data.txt'')) ''./out/data.txt'' = Some ''hello world''"
proof -
  have h: "err (Download quiet_world empty_fs (serve 200 ([CHR 0x1F, CHR 0x8B] @ ''hello world''))
          (url_of_path ''/data.gz'') ''./out/data.txt'') = None"
    by code_simp
  show ?thesis
    using h download_success_content[OF h]
    by (auto simp: serve_def url_of_path_def HasSuffix_def quiet_world_def stub_reader_def)
qed

text \<open>
  C2. When Download returns an error, whichever stage failed, the destination path holds
  after the call what it held before: the same content if a file was there, no file if
  none was. Nor is a directory made there, when the destination has a base name (it does
  not end in a separator) and is not \<open>.\<close> itself.
\<close>

theorem download_failure_preserves_destination:
  assumes "err (Download w fs cl u path) \<noteq> None"
  shows "files (fsys (Download w fs cl u path)) path = files fs path
       \<and> (snd (Split path) \<noteq> [] \<and> path \<noteq> ''.''
            \<longrightarrow> dirs (fsys (Download w fs cl u path)) path = dirs fs path)"
proof (rule conjI)
  show "snd (Split path) \<noteq> [] \<and> path \<noteq> ''.''
            \<longrightarrow> dirs (fsys (Download w fs cl u path)) path = dirs fs path"
    using Download_dirs_at_destination[of path w fs cl u] by blast
next
  show "files (fsys (Download w fs cl u path)) path = files fs path"
  proof (cases w fs cl u path rule: Download_cases)
    case (mkdir_failed e fs1)
    then show ?thesis using mkdir_all_files[of w fs _ mode_0755] by (metis outcome.select_convs(2) snd_conv)
  next
    case (temp_failed e fs1)
    then show ?thesis using mkdir_all_files[of w fs _ mode_0755] by (metis outcome.select_convs(2) snd_conv)
  next
    case (requested fs1 tmp r fs3 tr)
    let ?fs2 = "fs1\<lparr>files := (files fs1)(tmp \<mapsto> [])\<rparr>"
    from assms requested(7) obtain e where r: "r = Some e" by auto
    have f1: "files fs1 = files fs"
      using mkdir_all_files[of w fs _ mode_0755] requested(1) by (metis snd_conv)
    from requested(6) r have dr: "download_request w ?fs2 cl u path tmp = (Some e, False, fs3, tr)"
      by simp
    have "files fs3 path = files ?fs2 path"
      using download_request_failure[OF dr] requested(5) by auto
    then have "files fs3 path = files fs path" using f1 requested(5) by simp
    moreover have "fsys (Download w fs cl u path) = snd (remove w fs3 tmp)"
      using requested(7) r by simp
    ultimately show ?thesis using remove_other[of path tmp w fs3] requested(5) by simp
  qed
qed

theorem download_failure_preserves_destination_witness:
  "err (Download quiet_world old_fs refuse (url_of_path ''/data'') ''data.txt'') \<noteq> None
   \<and> files (fsys (Download quiet_world old_fs refuse (url_of_path ''/data'') ''data.txt''))
        ''data.txt'' = Some ''old''
   \<and> snd (Split ''data.txt'') \<noteq> [] \<and> ''data.txt'' \<noteq> ''.''
   \<and> dirs (fsys (Download quiet_world old_fs refuse (url_of_path ''/data'') ''data.txt''))
        ''data.txt'' = None"
proof -
  have h: "err (Download quiet_world old_fs refuse (url_of_path ''/data'') ''data.txt'') \<noteq> None"
    by code_simp
  have s: "snd (Split ''data.txt'') \<noteq> [] \<and> ''data.txt'' \<noteq> ''.''"
    by (simp add: Split_def IsPathSeparator_def)
  note k = download_failure_preserves_destination[OF h]
  from k have "files (fsys (Download quiet_world old_fs refuse (url_of_path ''/data'') ''data.txt''))
          ''data.txt'' = files old_fs ''data.txt''" by (rule conjunct1)
  moreover from k s
  have "dirs (fsys (Download quiet_world old_fs refuse (url_of_path ''/data'') ''data.txt''))
          ''data.txt'' = dirs old_fs ''data.txt''" by blast
  ultimately show ?thesis using h s by (simp add: old_fs_def)
qed




text \<open>
  C8. The destination is split at its last separator into directory and base name; an
  empty directory is replaced by \<open>.\<close>; the first call is \<open>MkdirAll\<close> of that
  directory with mode 0755, made once; the temporary file is asked for only after it
  succeeded, in that directory with the base name as pattern, and its name starts with that
  directory; every directory that exists after the call and did not before has mode 0755.
  All directories are made by that call, before the temporary file. When it succeeds,
  every prefix of the directory that ends in a separator and does not stop inside a run of
  separators (the directory itself and each of its ancestors) is a directory after the call,
  unless a longer such prefix was a directory before the call, where \<open>MkdirAll\<close> stops;
  in a file system in which the parent of every directory is a directory, all of them are.
\<close>

theorem download_directory_preparation:
  "path = fst (Split path) @ snd (Split path)
   \<and> \<not> list_ex IsPathSeparator (snd (Split path))
   \<and> (fst (Split path) = [] \<or> IsPathSeparator (last (fst (Split path))))
   \<and> (\<exists>dir rest. dir = (if fst (Split path) = [] then ''.'' else fst (Split path)) \<and> dir \<noteq> []
        \<and> trace (Download w fs cl u path) = MkdirAll dir mode_0755 # rest
        \<and> (\<forall>d m. MkdirAll d m \<notin> set rest)
        \<and> ((rest = [] \<and> fst (mkdir_all w fs dir mode_0755) \<noteq> None)
            \<or> (\<exists>rest'. rest = TempFile dir (snd (Split path)) # rest'
                  \<and> (\<forall>d b. TempFile d b \<notin> set rest')
                  \<and> fst (mkdir_all w fs dir mode_0755) = None
                  \<and> dirs (fsys (Download w fs cl u path)) dir \<noteq> None))
        \<and> (\<forall>tmp. Close tmp \<in> set (trace (Download w fs cl u path)) \<longrightarrow> prefix dir tmp))
   \<and> (\<forall>q m. dirs (fsys (Download w fs cl u path)) q = Some m
          \<longrightarrow> dirs fs q = Some m \<or> (dirs fs q = None \<and> m = mode_0755))
   \<and> mode_0755 = 493
   \<and> dirs (fsys (Download w fs cl u path)) = dirs (snd (mkdir_all w fs (if fst (Split path) = [] then ''.'' else fst (Split path)) mode_0755))
   \<and> (fst (mkdir_all w fs (if fst (Split path) = [] then ''.'' else fst (Split path)) mode_0755) = None \<longrightarrow>
        (\<forall>q r. (if fst (Split path) = [] then ''.'' else fst (Split path)) = q @ r \<and> q \<noteq> []
              \<and> IsPathSeparator (last q) \<and> (r = [] \<or> \<not> IsPathSeparator (hd r))
           \<longrightarrow> dirs (fsys (Download w fs cl u path)) q \<noteq> None
               \<or> (\<exists>q'. prefix q q'
                      \<and> prefix q' (if fst (Split path) = [] then ''.'' else fst (Split path))
                      \<and> dirs fs q' \<noteq> None))
      \<and> ((\<forall>q. dirs fs q \<noteq> None \<and> path_parent q \<noteq> [] \<longrightarrow> dirs fs (path_parent q) \<noteq> None)
           \<longrightarrow> (\<forall>q r. (if fst (Split path) = [] then ''.'' else fst (Split path)) = q @ r \<and> q \<noteq> []
                     \<and> IsPathSeparator (last q) \<and> (r = [] \<or> \<not> IsPathSeparator (hd r))
                 \<longrightarrow> dirs (fsys (Download w fs cl u path)) q \<noteq> None)))"
proof -
  note p = Download_preparation[where path = path and w = w and fs = fs and cl = cl and u = u]
  have d: "dirs (fsys (Download w fs cl u path)) = dirs (snd (mkdir_all w fs (if fst (Split path) = [] then ''.'' else fst (Split path)) mode_0755))"
    by (rule Download_dirs)
  have t: "fst (mkdir_all w fs (if fst (Split path) = [] then ''.'' else fst (Split path)) mode_0755) = None \<longrightarrow>
        (\<forall>q r. (if fst (Split path) = [] then ''.'' else fst (Split path)) = q @ r \<and> q \<noteq> []
              \<and> IsPathSeparator (last q) \<and> (r = [] \<or> \<not> IsPathSeparator (hd r))
           \<longrightarrow> dirs (fsys (Download w fs cl u path)) q \<noteq> None
               \<or> (\<exists>q'. prefix q q'
                      \<and> prefix q' (if fst (Split path) = [] then ''.'' else fst (Split path))
                      \<and> dirs fs q' \<noteq> None))
      \<and> ((\<forall>q. dirs fs q \<noteq> None \<and> path_parent q \<noteq> [] \<longrightarrow> dirs fs (path_parent q) \<noteq> None)
           \<longrightarrow> (\<forall>q r. (if fst (Split path) = [] then ''.'' else fst (Split path)) = q @ r \<and> q \<noteq> []
                     \<and> IsPathSeparator (last q) \<and> (r = [] \<or> \<not> IsPathSeparator (hd r))
                 \<longrightarrow> dirs (fsys (Download w fs cl u path)) q \<noteq> None))"
    using Download_tree[where path = path and w = w and fs = fs and cl = cl and u = u] by (rule impI)
  show ?thesis using p d t by (intro conjI) (elim conjE, assumption)+
qed

theorem download_directory_preparation_witness:
  "fst (mkdir_all quiet_world empty_fs ''a/b/'' mode_0755) = None
   \<and> dirs empty_fs ''a/'' = None \<and> dirs empty_fs ''a/b/'' = None
   \<and> dirs (fsys (Download quiet_world empty_fs refuse (url_of_path ''/data'') ''a/b/c.txt''))
        ''a/'' = Some 493
   \<and> dirs (fsys (Download quiet_world empty_fs refuse (url_of_path ''/data'') ''a/b/c.txt''))
        ''a/b/'' = Some 493
   \<and> hd (trace (Download quiet_world empty_fs refuse (url_of_path ''/data'') ''a/b/c.txt''))
        = MkdirAll ''a/b/'' 493
   \<and> Close ''a/b/c.txt42''
        \<in> set (trace (Download quiet_world empty_fs refuse (url_of_path ''/data'') ''a/b/c.txt''))
   \<and> prefix ''a/b/'' ''a/b/c.txt42''"
proof -
  let ?D = "Download quiet_world empty_fs refuse (url_of_path ''/data'') ''a/b/c.txt''"
  have dir: "(if fst (Split ''a/b/c.txt'') = [] then ''.'' else fst (Split ''a/b/c.txt'')) = ''a/b/''"
    by code_simp
  have ok: "fst (mkdir_all quiet_world empty_fs ''a/b/'' mode_0755) = None" by code_simp
  have wf: "\<forall>q. dirs empty_fs q \<noteq> None \<and> path_parent q \<noteq> []
              \<longrightarrow> dirs empty_fs (path_parent q) \<noteq> None"
    by (simp add: empty_fs_def)
  have e: "dirs empty_fs ''a/'' = None" "dirs empty_fs ''a/b/'' = None"
    by (simp_all add: empty_fs_def)
  have c: "Close ''a/b/c.txt42'' \<in> set (trace ?D)" by code_simp
  note k = download_directory_preparation[where path = "''a/b/c.txt''" and w = quiet_world
             and fs = empty_fs and cl = refuse and u = "url_of_path ''/data''", unfolded dir]
  note k4 = k[THEN conjunct2, THEN conjunct2, THEN conjunct2]
  note mode = k4[THEN conjunct2, THEN conjunct1]
  note tree = k4[THEN conjunct2, THEN conjunct2, THEN conjunct2, THEN conjunct2,
                 THEN mp, OF ok, THEN conjunct2, THEN mp, OF wf]
  from k4[THEN conjunct1] obtain rest where
    tr: "trace ?D = MkdirAll ''a/b/'' mode_0755 # rest"
    and pf: "\<forall>tmp. Close tmp \<in> set (trace ?D) \<longrightarrow> prefix ''a/b/'' tmp"
    by blast
  have m: "mode_0755 = 493" by (simp add: mode_0755_def)
  have "''a/b/'' = ''a/'' @ ''b/'' \<and> ''a/'' \<noteq> [] \<and> IsPathSeparator (last ''a/'')
          \<and> (''b/'' = [] \<or> \<not> IsPathSeparator (hd ''b/''))"
    by (simp add: IsPathSeparator_def)
  with tree have "dirs (fsys ?D) ''a/'' \<noteq> None" by blast
  then obtain y1 where y1: "dirs (fsys ?D) ''a/'' = Some y1" by blast
  from mode[rule_format, OF y1] e(1) have "y1 = mode_0755" by simp
  with y1 m have d1: "dirs (fsys ?D) ''a/'' = Some 493" by simp
  have "''a/b/'' = ''a/b/'' @ [] \<and> ''a/b/'' \<noteq> [] \<and> IsPathSeparator (last ''a/b/'')
          \<and> ([] = [] \<or> \<not> IsPathSeparator (hd []))"
    by (simp add: IsPathSeparator_def)
  with tree have "dirs (fsys ?D) ''a/b/'' \<noteq> None" by blast
  then obtain y2 where y2: "dirs (fsys ?D) ''a/b/'' = Some y2" by blast
  from mode[rule_format, OF y2] e(2) have "y2 = mode_0755" by simp
  with y2 m have d2: "dirs (fsys ?D) ''a/b/'' = Some 493" by simp
  have h: "hd (trace ?D) = MkdirAll ''a/b/'' 493" using tr m by simp
  have p: "prefix ''a/b/'' ''a/b/c.txt42''" using pf c by blast
  show ?thesis using ok e d1 d2 h c p by (intro conjI)
qed

text \<open>
  C10. When a call fails after \<open>MkdirAll\<close> succeeded, the directories after the call
  are exactly those \<open>MkdirAll\<close> left: the destination's directory exists, every
  directory that existed before still does, the only removal is that of the temporary
  file, and every file but the temporary one is as before.
\<close>

theorem download_keeps_directories:
  assumes "err (Download w fs cl u path) \<noteq> None"
    and "TempFile d b \<in> set (trace (Download w fs cl u path))"
  shows "fst (mkdir_all w fs d mode_0755) = None
       \<and> dirs (fsys (Download w fs cl u path)) = dirs (snd (mkdir_all w fs d mode_0755))
       \<and> dirs (fsys (Download w fs cl u path)) d \<noteq> None
       \<and> (\<forall>q m. dirs fs q = Some m \<longrightarrow> dirs (fsys (Download w fs cl u path)) q = Some m)
       \<and> (\<forall>q. Remove q \<in> set (trace (Download w fs cl u path))
              \<longrightarrow> Close q \<in> set (trace (Download w fs cl u path)))
       \<and> (\<forall>q. Close q \<notin> set (trace (Download w fs cl u path))
              \<longrightarrow> files (fsys (Download w fs cl u path)) q = files fs q)"
proof (cases w fs cl u path rule: Download_cases)
  case (mkdir_failed e fs1)
  with assms show ?thesis by simp
next
  case (temp_failed e fs1)
  let ?dir = "if fst (Split path) = [] then ''.'' else fst (Split path)"
  from assms(2) temp_failed(3) have d: "d = ?dir" by simp
  have ok: "fst (mkdir_all w fs ?dir mode_0755) = None" using temp_failed(1) by simp
  have "dirs fs1 ?dir \<noteq> None" using mkdir_all_ok[OF ok] temp_failed(1) by simp
  moreover have "\<forall>q m. dirs fs q = Some m \<longrightarrow> dirs fs1 q = Some m"
    using mkdir_all_dirs_mono[of fs _ _ w ?dir mode_0755] temp_failed(1) by simp
  moreover have "files fs1 = files fs"
    using mkdir_all_files[of w fs ?dir mode_0755] temp_failed(1) by simp
  ultimately show ?thesis using temp_failed d by simp
next
  case (requested fs1 tmp r fs3 tr)
  let ?dir = "if fst (Split path) = [] then ''.'' else fst (Split path)"
  let ?fs2 = "fs1\<lparr>files := (files fs1)(tmp \<mapsto> [])\<rparr>"
  let ?D = "Download w fs cl u path"
  note dr = requested(6)
  from assms(1) requested(7) obtain e where r: "r = Some e" by auto
  have "TempFile d b \<notin> set tr" using download_request_trace[OF dr] by auto
  with assms(2) requested(7) have d: "d = ?dir" by (auto split: if_splits)
  have ok: "fst (mkdir_all w fs ?dir mode_0755) = None" using requested(1) by simp
  have d1: "dirs fs1 ?dir \<noteq> None" using mkdir_all_ok[OF ok] requested(1) by simp
  have mono: "\<forall>q m. dirs fs q = Some m \<longrightarrow> dirs fs1 q = Some m"
    using mkdir_all_dirs_mono[of fs _ _ w ?dir mode_0755] requested(1) by simp
  have f1: "files fs1 = files fs"
    using mkdir_all_files[of w fs ?dir mode_0755] requested(1) by simp
  have fsD: "fsys ?D = snd (remove w fs3 tmp)" using requested(7) r by simp
  have dD: "dirs (fsys ?D) = dirs fs1"
    using fsD remove_dirs[of w fs3 tmp] download_request_dirs[OF dr] by simp
  have trD: "trace ?D = [MkdirAll ?dir mode_0755, TempFile ?dir (snd (Split path))] @ tr
                  @ [Remove tmp, Close tmp]"
    using requested(7) r by simp
  have rm: "\<forall>q. Remove q \<in> set (trace ?D) \<longrightarrow> Close q \<in> set (trace ?D)"
    using trD download_request_no_Remove[OF dr] by auto
  from r dr have dr': "download_request w ?fs2 cl u path tmp = (Some e, False, fs3, tr)" by simp
  have f3: "\<forall>q. q \<noteq> tmp \<longrightarrow> files fs3 q = files fs q"
    using download_request_failure[OF dr'] f1 by auto
  have fl: "\<forall>q. Close q \<notin> set (trace ?D) \<longrightarrow> files (fsys ?D) q = files fs q"
  proof (intro allI impI)
    fix q assume "Close q \<notin> set (trace ?D)"
    then have "q \<noteq> tmp" using trD by auto
    then show "files (fsys ?D) q = files fs q"
      using fsD f3 remove_other[of q tmp w fs3] by simp
  qed
  show ?thesis using ok d d1 mono dD rm fl requested(1) by simp
qed

theorem download_keeps_directories_witness:
  "err (Download quiet_world empty_fs refuse (url_of_path ''/data.gz'') ''./out/data.txt'') \<noteq> None
   \<and> TempFile ''./out/'' ''data.txt''
        \<in> set (trace (Download quiet_world empty_fs refuse (url_of_path ''/data.gz'') ''./out/data.txt''))
   \<and> dirs empty_fs ''./out/'' = None
   \<and> dirs (fsys (Download quiet_world empty_fs refuse (url_of_path ''/data.gz'') ''./out/data.txt''))
        ''./out/'' \<noteq> None"
proof -
  have e: "err (Download quiet_world empty_fs refuse (url_of_path ''/data.gz'') ''./out/data.txt'') \<noteq> None"
    by code_simp
  have t: "TempFile ''./out/'' ''data.txt''
        \<in> set (trace (Download quiet_world empty_fs refuse (url_of_path ''/data.gz'') ''./out/data.txt''))"
    by code_simp
  have z: "dirs empty_fs ''./out/'' = None" by (simp add: empty_fs_def)
  from download_keeps_directories[OF e t]
  have "dirs (fsys (Download quiet_world empty_fs refuse (url_of_path ''/data.gz'') ''./out/data.txt''))
        ''./out/'' \<noteq> None" by blast
  with e t z show ?thesis by blast
qed

text \<open>
  C4. Once \<open>client.Do\<close> has answered, the reader is chosen by whether \<open>u.Path\<close> ends
  in \<open>gz\<close>, else in \<open>bz2\<close>, else in \<open>xz\<close>, as strings and with the case of the
  letters as it is: exactly the chosen reader is constructed, what \<open>io.Copy\<close> is given
  is that reader, and the response body itself when none of the three matches. A path that
  ends in \<open>zgz\<close> gets the gzip reader; one that ends in \<open>GZ\<close>, \<open>.Gz\<close> or
  \<open>.gZ\<close> does not.
\<close>

theorem download_decoder_selection:
  assumes "cl \<lparr>Method = ''GET'', URL = u\<rparr> = Inr resp"
    and "ClientDo \<lparr>Method = ''GET'', URL = u\<rparr> \<in> set (trace (Download w fs cl u path))"
  shows "(GzipNewReader \<in> set (trace (Download w fs cl u path)) \<longleftrightarrow> suffix ''gz'' (Path u))
     \<and> (Bzip2NewReader \<in> set (trace (Download w fs cl u path))
          \<longleftrightarrow> \<not> suffix ''gz'' (Path u) \<and> suffix ''bz2'' (Path u))
     \<and> (XzNewReader \<in> set (trace (Download w fs cl u path))
          \<longleftrightarrow> \<not> suffix ''gz'' (Path u) \<and> \<not> suffix ''bz2'' (Path u) \<and> suffix ''xz'' (Path u))
     \<and> (\<forall>t r. Copy t r \<in> set (trace (Download w fs cl u path)) \<longrightarrow>
           (if suffix ''gz'' (Path u) then gzip_new_reader w (Body resp) = Inr r
            else if suffix ''bz2'' (Path u) then r = bzip2_new_reader w (Body resp)
            else if suffix ''xz'' (Path u) then xz_new_reader w (Body resp) = Inr r
            else r = Body resp))
     \<and> (\<not> suffix ''gz'' (Path u) \<and> \<not> suffix ''xz'' (Path u)
          \<longrightarrow> (\<exists>t r. Copy t r \<in> set (trace (Download w fs cl u path))))
     \<and> (suffix ''zgz'' (Path u) \<longrightarrow> GzipNewReader \<in> set (trace (Download w fs cl u path)))
     \<and> (suffix ''GZ'' (Path u) \<or> suffix ''.Gz'' (Path u) \<or> suffix ''.gZ'' (Path u)
          \<longrightarrow> GzipNewReader \<notin> set (trace (Download w fs cl u path)))"
proof -
  let ?D = "Download w fs cl u path"
  from assms(2,1) obtain fs1 tmp res fs3 tr' where
    dd: "download_decode w (fs1\<lparr>files := (files fs1)(tmp \<mapsto> [])\<rparr>) u path tmp resp
           = (res, res = None, fs3, tr')" and
    tD: "set (trace ?D)
       = {MkdirAll (if fst (Split path) = [] then ''.'' else fst (Split path)) mode_0755,
          TempFile (if fst (Split path) = [] then ''.'' else fst (Split path)) (snd (Split path)),
          NewRequest ''GET'' u, ClientDo \<lparr>Method = ''GET'', URL = u\<rparr>, CloseBody, Close tmp}
         \<union> set tr' \<union> (if res \<noteq> None then {Remove tmp} else {})"
    by (rule Download_responded)
  note rd = download_decode_readers[OF dd, unfolded HasSuffix_iff_suffix]
  have g: "GzipNewReader \<in> set (trace ?D) \<longleftrightarrow> suffix ''gz'' (Path u)"
    using rd tD by auto
  have b: "Bzip2NewReader \<in> set (trace ?D) \<longleftrightarrow> \<not> suffix ''gz'' (Path u) \<and> suffix ''bz2'' (Path u)"
    using rd tD by auto
  have x: "XzNewReader \<in> set (trace ?D)
          \<longleftrightarrow> \<not> suffix ''gz'' (Path u) \<and> \<not> suffix ''bz2'' (Path u) \<and> suffix ''xz'' (Path u)"
    using rd tD by auto
  have c: "\<forall>t r. Copy t r \<in> set (trace ?D) \<longrightarrow>
           (if suffix ''gz'' (Path u) then gzip_new_reader w (Body resp) = Inr r
            else if suffix ''bz2'' (Path u) then r = bzip2_new_reader w (Body resp)
            else if suffix ''xz'' (Path u) then xz_new_reader w (Body resp) = Inr r
            else r = Body resp)"
  proof (intro allI impI)
    fix t r assume "Copy t r \<in> set (trace ?D)"
    then have "Copy t r \<in> set tr'" using tD by (auto split: if_splits)
    then have "selected w u resp r" using download_decode_Copy[OF dd] by blast
    then show "if suffix ''gz'' (Path u) then gzip_new_reader w (Body resp) = Inr r
            else if suffix ''bz2'' (Path u) then r = bzip2_new_reader w (Body resp)
            else if suffix ''xz'' (Path u) then xz_new_reader w (Body resp) = Inr r
            else r = Body resp"
      by (auto simp: selected_def HasSuffix_iff_suffix split: if_splits)
  qed
  have e: "\<not> suffix ''gz'' (Path u) \<and> \<not> suffix ''xz'' (Path u)
          \<longrightarrow> (\<exists>t r. Copy t r \<in> set (trace ?D))"
  proof
    assume n: "\<not> suffix ''gz'' (Path u) \<and> \<not> suffix ''xz'' (Path u)"
    then have "selected w u resp
        (if suffix ''bz2'' (Path u) then bzip2_new_reader w (Body resp) else Body resp)"
      by (simp add: selected_def HasSuffix_iff_suffix)
    then have "\<exists>r. Copy tmp r \<in> set tr'" using download_decode_has_Copy[OF dd] by blast
    then show "\<exists>t r. Copy t r \<in> set (trace ?D)" using tD by blast
  qed
  have z: "suffix ''zgz'' (Path u) \<longrightarrow> GzipNewReader \<in> set (trace ?D)"
    using g by (auto simp: suffix_def)
  have cs: "suffix ''GZ'' (Path u) \<or> suffix ''.Gz'' (Path u) \<or> suffix ''.gZ'' (Path u)
          \<longrightarrow> GzipNewReader \<notin> set (trace ?D)"
    using g by (auto simp: suffix_def)
  show ?thesis using g b x c e z cs by blast
qed

theorem download_decoder_selection_witness:
  "suffix ''zgz'' ''/dzgz''
   \<and> GzipNewReader \<in> set (trace (Download quiet_world empty_fs
         (serve 200 ([CHR 0x1F, CHR 0x8B] @ ''hello world'')) (url_of_path ''/dzgz'') ''data.txt''))
   \<and> Copy ''./data.txt42'' (''hello world'', None) \<in> set (trace (Download quiet_world empty_fs
         (serve 200 ([CHR 0x1F, CHR 0x8B] @ ''hello world'')) (url_of_path ''/dzgz'') ''data.txt''))"
proof -
  let ?cl = "serve 200 ([CHR 0x1F, CHR 0x8B] @ ''hello world'')"
  let ?u = "url_of_path ''/dzgz''"
  let ?resp = "\<lparr>StatusCode = 200, Body = ([CHR 0x1F, CHR 0x8B] @ ''hello world'', None)\<rparr>"
  have a: "?cl \<lparr>Method = ''GET'', URL = ?u\<rparr> = Inr ?resp" by (simp add: serve_def)
  have b: "ClientDo \<lparr>Method = ''GET'', URL = ?u\<rparr>
             \<in> set (trace (Download quiet_world empty_fs ?cl ?u ''data.txt''))"
    by code_simp
  have s: "suffix ''zgz'' ''/dzgz''" by (simp add: suffix_def)
  have p: "Path ?u = ''/dzgz''" by (simp add: url_of_path_def)
  have c: "Copy ''./data.txt42'' (''hello world'', None) \<in> set (trace (Download quiet_world empty_fs
         ?cl ?u ''data.txt''))"
    by code_simp
  from download_decoder_selection[OF a b]
  have "suffix ''zgz'' (Path ?u)
          \<longrightarrow> GzipNewReader \<in> set (trace (Download quiet_world empty_fs ?cl ?u ''data.txt''))"
    by (elim conjE)
  with s p have "GzipNewReader \<in> set (trace (Download quiet_world empty_fs ?cl ?u ''data.txt''))"
    by simp
  with s c show ?thesis by simp
qed

text \<open>
  C5. The status code of the response has no influence on what Download does or returns.
  When the client answers without a transport error and no suffix matches, whatever the
  status code, the response body is what \<open>io.Copy\<close> is given, and when the copy, the
  close and the rename succeed the call succeeds with the body's bytes at the destination.
\<close>

theorem download_ignores_status:
  "Download w fs (with_status code cl) u path = Download w fs cl u path
   \<and> (cl \<lparr>Method = ''GET'', URL = u\<rparr> = Inr resp
        \<and> ClientDo \<lparr>Method = ''GET'', URL = u\<rparr> \<in> set (trace (Download w fs cl u path))
        \<and> \<not> HasSuffix (Path u) ''gz'' \<and> \<not> HasSuffix (Path u) ''bz2''
        \<and> \<not> HasSuffix (Path u) ''xz''
      \<longrightarrow> (\<exists>tmp. Copy tmp (Body resp) \<in> set (trace (Download w fs cl u path))
            \<and> (snd (Body resp) = None \<and> write_err w tmp = None \<and> close_err w tmp = None
                 \<and> rename_err w tmp path = None
               \<longrightarrow> err (Download w fs cl u path) = None
                   \<and> files (fsys (Download w fs cl u path))
                       = (files fs)(path \<mapsto> fst (Body resp)))))"
proof (intro conjI impI)
  show "Download w fs (with_status code cl) u path = Download w fs cl u path"
    by (rule Download_status)
next
  assume asm: "cl \<lparr>Method = ''GET'', URL = u\<rparr> = Inr resp
        \<and> ClientDo \<lparr>Method = ''GET'', URL = u\<rparr> \<in> set (trace (Download w fs cl u path))
        \<and> \<not> HasSuffix (Path u) ''gz'' \<and> \<not> HasSuffix (Path u) ''bz2''
        \<and> \<not> HasSuffix (Path u) ''xz''"
  then have assms: "cl \<lparr>Method = ''GET'', URL = u\<rparr> = Inr resp"
    "ClientDo \<lparr>Method = ''GET'', URL = u\<rparr> \<in> set (trace (Download w fs cl u path))"
    "\<not> HasSuffix (Path u) ''gz''" "\<not> HasSuffix (Path u) ''bz2''" "\<not> HasSuffix (Path u) ''xz''"
    by simp_all

  let ?D = "Download w fs cl u path"
  have sel: "selected w u resp (Body resp)" using assms(3-5) by (simp add: selected_def)
  from assms(2,1) obtain fs1 tmp res fs3 tr' where
    f1: "files fs1 = files fs" and fr: "files fs1 tmp = None" and
    dd: "download_decode w (fs1\<lparr>files := (files fs1)(tmp \<mapsto> [])\<rparr>) u path tmp resp
           = (res, res = None, fs3, tr')" and
    e: "err ?D = res" and
    fD: "fsys ?D = (if res \<noteq> None then snd (remove w fs3 tmp) else fs3)" and
    tD: "set (trace ?D)
       = {MkdirAll (if fst (Split path) = [] then ''.'' else fst (Split path)) mode_0755,
          TempFile (if fst (Split path) = [] then ''.'' else fst (Split path)) (snd (Split path)),
          NewRequest ''GET'' u, ClientDo \<lparr>Method = ''GET'', URL = u\<rparr>, CloseBody, Close tmp}
         \<union> set tr' \<union> (if res \<noteq> None then {Remove tmp} else {})"
    by (rule Download_responded)
  have c: "Copy tmp (Body resp) \<in> set (trace ?D)"
    using download_decode_has_Copy[OF dd sel] tD by blast
  have s: "err ?D = None \<and> files (fsys ?D) = (files fs)(path \<mapsto> fst (Body resp))"
    if ok: "snd (Body resp) = None" "write_err w tmp = None" "close_err w tmp = None"
           "rename_err w tmp path = None"
  proof -
    have r: "res = None"
      using download_decode_ok[OF dd sel ok] by simp
    with dd have dd': "download_decode w (fs1\<lparr>files := (files fs1)(tmp \<mapsto> [])\<rparr>) u path tmp resp
           = (None, True, fs3, tr')" by simp
    from download_decode_success[OF dd'] obtain r' where
      s': "selected w u resp r'" and
      f3: "files fs3 = ((files (fs1\<lparr>files := (files fs1)(tmp \<mapsto> [])\<rparr>))(tmp := None))(path \<mapsto> fst r')"
      by auto
    have "r' = Body resp" using selected_unique[OF s' sel] by simp
    moreover have "(files fs1)(tmp := None) = files fs1" using fr by (simp add: fun_upd_idem)
    ultimately have "files fs3 = (files fs)(path \<mapsto> fst (Body resp))" using f3 f1 by simp
    then show ?thesis using e fD r by simp
  qed
  show "\<exists>tmp. Copy tmp (Body resp) \<in> set (trace ?D)
            \<and> (snd (Body resp) = None \<and> write_err w tmp = None \<and> close_err w tmp = None
                 \<and> rename_err w tmp path = None
               \<longrightarrow> err ?D = None \<and> files (fsys ?D) = (files fs)(path \<mapsto> fst (Body resp)))"
    using c s by (intro exI[of _ tmp]) simp
qed

theorem download_ignores_status_witness:
  "err (Download quiet_world empty_fs (serve 500 ''Internal Server Error'') (url_of_path ''/data'')
          ''data.txt'') = None
   \<and> files (fsys (Download quiet_world empty_fs (serve 500 ''Internal Server Error'')
          (url_of_path ''/data'') ''data.txt'')) ''data.txt'' = Some ''Internal Server Error''"
proof -
  let ?cl = "serve 500 ''Internal Server Error''"
  let ?u = "url_of_path ''/data''"
  let ?resp = "\<lparr>StatusCode = 500, Body = (''Internal Server Error'', None)\<rparr>"
  have a: "?cl \<lparr>Method = ''GET'', URL = ?u\<rparr> = Inr ?resp" by (simp add: serve_def)
  have b: "ClientDo \<lparr>Method = ''GET'', URL = ?u\<rparr>
             \<in> set (trace (Download quiet_world empty_fs ?cl ?u ''data.txt''))"
    by code_simp
  have c: "\<not> HasSuffix (Path ?u) ''gz''" "\<not> HasSuffix (Path ?u) ''bz2''" "\<not> HasSuffix (Path ?u) ''xz''"
    by (simp_all add: HasSuffix_def url_of_path_def)
  show ?thesis
    using a b c download_ignores_status[of quiet_world empty_fs 200 ?cl ?u "''data.txt''" ?resp]
    by (auto simp: quiet_world_def empty_fs_def)
qed


text \<open>
  C6. With a gzip or xz suffix, an error of the reader's constructor is returned as it
  is, and \<open>io.Copy\<close> is never called. With a bzip2 suffix the constructor cannot fail:
  \<open>io.Copy\<close> is always called on the bzip2 reader, and an error of that reader is the
  error of the copy stage.
\<close>

theorem download_invalid_header:
  assumes "cl \<lparr>Method = ''GET'', URL = u\<rparr> = Inr resp"
    and "ClientDo \<lparr>Method = ''GET'', URL = u\<rparr> \<in> set (trace (Download w fs cl u path))"
  shows "(HasSuffix (Path u) ''gz'' \<and> gzip_new_reader w (Body resp) = Inl e
          \<longrightarrow> err (Download w fs cl u path) = Some e
              \<and> GzipNewReader \<in> set (trace (Download w fs cl u path))
              \<and> (\<forall>t r. Copy t r \<notin> set (trace (Download w fs cl u path))))
       \<and> (HasSuffix (Path u) ''xz'' \<and> xz_new_reader w (Body resp) = Inl e
          \<longrightarrow> err (Download w fs cl u path) = Some e
              \<and> XzNewReader \<in> set (trace (Download w fs cl u path))
              \<and> (\<forall>t r. Copy t r \<notin> set (trace (Download w fs cl u path))))
       \<and> (HasSuffix (Path u) ''bz2''
          \<longrightarrow> Bzip2NewReader \<in> set (trace (Download w fs cl u path))
              \<and> (\<exists>t. Copy t (bzip2_new_reader w (Body resp)) \<in> set (trace (Download w fs cl u path))
                    \<and> (snd (bzip2_new_reader w (Body resp)) = Some e \<and> write_err w t = None
                          \<longrightarrow> err (Download w fs cl u path) = Some e)))"
proof -
  let ?D = "Download w fs cl u path"
  from assms(2,1) obtain fs1 tmp res fs3 tr' where
    dd: "download_decode w (fs1\<lparr>files := (files fs1)(tmp \<mapsto> [])\<rparr>) u path tmp resp
           = (res, res = None, fs3, tr')" and
    eD: "err ?D = res" and
    tD: "set (trace ?D)
       = {MkdirAll (if fst (Split path) = [] then ''.'' else fst (Split path)) mode_0755,
          TempFile (if fst (Split path) = [] then ''.'' else fst (Split path)) (snd (Split path)),
          NewRequest ''GET'' u, ClientDo \<lparr>Method = ''GET'', URL = u\<rparr>, CloseBody, Close tmp}
         \<union> set tr' \<union> (if res \<noteq> None then {Remove tmp} else {})"
    by (rule Download_responded)
  note rd = download_decode_readers[OF dd]
  have cp: "Copy t r \<in> set (trace ?D) \<longleftrightarrow> Copy t r \<in> set tr'" for t r
    using tD by (auto split: if_splits)
  have g: "HasSuffix (Path u) ''gz'' \<and> gzip_new_reader w (Body resp) = Inl e
          \<longrightarrow> err ?D = Some e \<and> GzipNewReader \<in> set (trace ?D)
              \<and> (\<forall>t r. Copy t r \<notin> set (trace ?D))"
  proof
    assume h: "HasSuffix (Path u) ''gz'' \<and> gzip_new_reader w (Body resp) = Inl e"
    then have "res = Some e \<and> (\<forall>t r. Copy t r \<notin> set tr')"
      by (intro download_decode_init_error[OF dd]) simp
    moreover have "GzipNewReader \<in> set (trace ?D)" using rd h tD by blast
    ultimately show "err ?D = Some e \<and> GzipNewReader \<in> set (trace ?D)
              \<and> (\<forall>t r. Copy t r \<notin> set (trace ?D))"
      using eD cp by simp
  qed
  have x: "HasSuffix (Path u) ''xz'' \<and> xz_new_reader w (Body resp) = Inl e
          \<longrightarrow> err ?D = Some e \<and> XzNewReader \<in> set (trace ?D)
              \<and> (\<forall>t r. Copy t r \<notin> set (trace ?D))"
  proof
    assume h: "HasSuffix (Path u) ''xz'' \<and> xz_new_reader w (Body resp) = Inl e"
    then have n: "\<not> HasSuffix (Path u) ''gz''" "\<not> HasSuffix (Path u) ''bz2''"
      using HasSuffix_gz_not_xz[of "Path u"] HasSuffix_bz2_not_xz[of "Path u"] by blast+
    then have "res = Some e \<and> (\<forall>t r. Copy t r \<notin> set tr')"
      using h by (intro download_decode_init_error[OF dd]) simp
    moreover have "XzNewReader \<in> set (trace ?D)" using rd h n tD by blast
    ultimately show "err ?D = Some e \<and> XzNewReader \<in> set (trace ?D)
              \<and> (\<forall>t r. Copy t r \<notin> set (trace ?D))"
      using eD cp by simp
  qed
  have b: "HasSuffix (Path u) ''bz2''
          \<longrightarrow> Bzip2NewReader \<in> set (trace ?D)
              \<and> (\<exists>t. Copy t (bzip2_new_reader w (Body resp)) \<in> set (trace ?D)
                    \<and> (snd (bzip2_new_reader w (Body resp)) = Some e \<and> write_err w t = None
                          \<longrightarrow> err ?D = Some e))"
  proof
    assume h: "HasSuffix (Path u) ''bz2''"
    then have n: "\<not> HasSuffix (Path u) ''gz''"
      using HasSuffix_gz_not_bz2[of "Path u"] by blast
    have d: "download_copy w (fs1\<lparr>files := (files fs1)(tmp \<mapsto> [])\<rparr>) path tmp
               (bzip2_new_reader w (Body resp)) = (res, res = None, fs3, tl tr')"
      using dd h n by (auto simp: download_decode_def split: prod.split_asm)
    have sel: "selected w u resp (bzip2_new_reader w (Body resp))"
      using h n by (simp add: selected_def)
    have c: "Copy tmp (bzip2_new_reader w (Body resp)) \<in> set (trace ?D)"
      using download_decode_has_Copy[OF dd sel] cp by simp
    have r: "snd (bzip2_new_reader w (Body resp)) = Some e \<and> write_err w tmp = None
                          \<longrightarrow> err ?D = Some e"
      using download_copy_read_error[OF d] eD by simp
    have "Bzip2NewReader \<in> set (trace ?D)" using rd h n tD by blast
    then show "Bzip2NewReader \<in> set (trace ?D)
              \<and> (\<exists>t. Copy t (bzip2_new_reader w (Body resp)) \<in> set (trace ?D)
                    \<and> (snd (bzip2_new_reader w (Body resp)) = Some e \<and> write_err w t = None
                          \<longrightarrow> err ?D = Some e))"
      using c r by blast
  qed
  show ?thesis using g x b by (intro conjI)
qed

theorem download_invalid_header_witness:
  "err (Download quiet_world empty_fs (serve 200 ''garbage'') (url_of_path ''/data.gz'') ''data.txt'')
     = Some (Errno ''invalid header'')
   \<and> Copy ''./data.txt42'' ([], Some (Errno ''invalid header''))
       \<in> set (trace (Download quiet_world empty_fs (serve 200 ''garbage'') (url_of_path ''/data.bz2'')
                        ''data.txt''))
   \<and> err (Download quiet_world empty_fs (serve 200 ''garbage'') (url_of_path ''/data.bz2'') ''data.txt'')
     = Some (Errno ''invalid header'')"
proof -
  let ?cl = "serve 200 ''garbage''"
  let ?resp = "\<lparr>StatusCode = 200, Body = (''garbage'', None)\<rparr>"
  let ?g = "url_of_path ''/data.gz''"
  let ?b = "url_of_path ''/data.bz2''"
  let ?e = "Errno ''invalid header''"
  have a1: "?cl \<lparr>Method = ''GET'', URL = ?g\<rparr> = Inr ?resp" by (simp add: serve_def)
  have b1: "ClientDo \<lparr>Method = ''GET'', URL = ?g\<rparr>
             \<in> set (trace (Download quiet_world empty_fs ?cl ?g ''data.txt''))" by code_simp
  have h1: "HasSuffix (Path ?g) ''gz'' \<and> gzip_new_reader quiet_world (Body ?resp) = Inl ?e"
    by (simp add: HasSuffix_def url_of_path_def quiet_world_def stub_reader_def)
  from download_invalid_header[OF a1 b1, where e = ?e] h1
  have g: "err (Download quiet_world empty_fs ?cl ?g ''data.txt'') = Some ?e" by blast
  have a2: "?cl \<lparr>Method = ''GET'', URL = ?b\<rparr> = Inr ?resp" by (simp add: serve_def)
  have b2: "ClientDo \<lparr>Method = ''GET'', URL = ?b\<rparr>
             \<in> set (trace (Download quiet_world empty_fs ?cl ?b ''data.txt''))" by code_simp
  have h2: "HasSuffix (Path ?b) ''bz2''" by (simp add: HasSuffix_def url_of_path_def)
  have r2: "bzip2_new_reader quiet_world (Body ?resp) = ([], Some ?e)"
    by (simp add: quiet_world_def stub_lazy_reader_def stub_reader_def)
  have w2: "write_err quiet_world t = None" for t by (simp add: quiet_world_def)
  from download_invalid_header[OF a2 b2, where e = ?e] h2
  obtain t where "Copy t (bzip2_new_reader quiet_world (Body ?resp))
                    \<in> set (trace (Download quiet_world empty_fs ?cl ?b ''data.txt''))"
     and "snd (bzip2_new_reader quiet_world (Body ?resp)) = Some ?e \<and> write_err quiet_world t = None
            \<longrightarrow> err (Download quiet_world empty_fs ?cl ?b ''data.txt'') = Some ?e"
    by blast
  then have e2: "err (Download quiet_world empty_fs ?cl ?b ''data.txt'') = Some ?e"
    using r2 w2 by simp
  have c2: "Copy ''./data.txt42'' ([], Some ?e)
       \<in> set (trace (Download quiet_world empty_fs ?cl ?b ''data.txt''))" by code_simp
  show ?thesis using g c2 e2 by (intro conjI)
qed

text \<open>
  C7. Decompress and Download return the same error, leave the same file system and make
  the same calls in the same order, for every world, file system, client, URL and path.
\<close>

theorem decompress_is_download: "Decompress w fs cl u path = Download w fs cl u path"
  by (unfold Decompress_def Download_def decompress_request_eq, rule refl)

text \<open>
  C9, as amended. No call but the last, deferred \<open>Close\<close> is made twice, so nothing is
  retried. The error of the stage that fails is what Download returns: unchanged for
  \<open>MkdirAll\<close>, \<open>NewRequest\<close>, \<open>client.Do\<close>, the gzip and xz constructors,
  \<open>io.Copy\<close> and \<open>Rename\<close>; wrapped with \<open>create temporary file\<close> for the temporary
  file and with \<open>write and close temporary file\<close> for \<open>Close\<close>.
\<close>

theorem download_error_propagation:
  "distinct (butlast (trace (Download w fs cl u path)))
   \<and> (fst (mkdir_all w fs (if fst (Split path) = [] then ''.'' else fst (Split path)) mode_0755)
          = Some e
        \<longrightarrow> err (Download w fs cl u path) = Some e)
   \<and> (fst (mkdir_all w fs (if fst (Split path) = [] then ''.'' else fst (Split path)) mode_0755)
          = None
        \<and> fst (CreateTemp w
               (snd (mkdir_all w fs (if fst (Split path) = [] then ''.'' else fst (Split path))
                      mode_0755))
               (if fst (Split path) = [] then ''.'' else fst (Split path)) (snd (Split path)))
          = Inl e
        \<longrightarrow> err (Download w fs cl u path) = Some (Wrapf ''create temporary file'' e))
   \<and> (NewRequest ''GET'' u \<in> set (trace (Download w fs cl u path))
        \<and> new_request_err w ''GET'' u = Some e
        \<longrightarrow> err (Download w fs cl u path) = Some e)
   \<and> (ClientDo \<lparr>Method = ''GET'', URL = u\<rparr> \<in> set (trace (Download w fs cl u path))
        \<and> cl \<lparr>Method = ''GET'', URL = u\<rparr> = Inl e
        \<longrightarrow> err (Download w fs cl u path) = Some e)
   \<and> (ClientDo \<lparr>Method = ''GET'', URL = u\<rparr> \<in> set (trace (Download w fs cl u path))
        \<and> cl \<lparr>Method = ''GET'', URL = u\<rparr> = Inr resp
        \<and> (HasSuffix (Path u) ''gz'' \<and> gzip_new_reader w (Body resp) = Inl e
             \<or> HasSuffix (Path u) ''xz'' \<and> xz_new_reader w (Body resp) = Inl e)
        \<longrightarrow> err (Download w fs cl u path) = Some e)
   \<and> (Copy t r \<in> set (trace (Download w fs cl u path)) \<and> fst (io_copy w fs0 t r) = Some e
        \<longrightarrow> err (Download w fs cl u path) = Some e)
   \<and> (Copy t r \<in> set (trace (Download w fs cl u path)) \<and> fst (io_copy w fs0 t r) = None
        \<and> close_err w t = Some e
        \<longrightarrow> err (Download w fs cl u path) = Some (Wrapf ''write and close temporary file'' e))
   \<and> (Rename t path \<in> set (trace (Download w fs cl u path)) \<and> rename_err w t path = Some e
        \<longrightarrow> err (Download w fs cl u path) = Some e)"
proof -
  let ?D = "Download w fs cl u path"
  let ?dir = "if fst (Split path) = [] then ''.'' else fst (Split path)"
  let ?req = "\<lparr>Method = ''GET'', URL = u\<rparr>"
  have init: "ClientDo ?req \<in> set (trace ?D) \<and> cl ?req = Inr resp
        \<and> (HasSuffix (Path u) ''gz'' \<and> gzip_new_reader w (Body resp) = Inl e
             \<or> HasSuffix (Path u) ''xz'' \<and> xz_new_reader w (Body resp) = Inl e)
        \<longrightarrow> err ?D = Some e"
  proof (intro impI, elim conjE)
    assume c: "ClientDo ?req \<in> set (trace ?D)" and r: "cl ?req = Inr resp"
      and h: "HasSuffix (Path u) ''gz'' \<and> gzip_new_reader w (Body resp) = Inl e
             \<or> HasSuffix (Path u) ''xz'' \<and> xz_new_reader w (Body resp) = Inl e"
    from c r obtain fs1 tmp res fs3 tr' where
      dd: "download_decode w (fs1\<lparr>files := (files fs1)(tmp \<mapsto> [])\<rparr>) u path tmp resp
           = (res, res = None, fs3, tr')" and e: "err ?D = res"
      by (rule Download_responded)
    have "(HasSuffix (Path u) ''gz'' \<and> gzip_new_reader w (Body resp) = Inl e)
       \<or> (\<not> HasSuffix (Path u) ''gz'' \<and> \<not> HasSuffix (Path u) ''bz2''
            \<and> HasSuffix (Path u) ''xz'' \<and> xz_new_reader w (Body resp) = Inl e)"
      using h HasSuffix_gz_not_xz[of "Path u"] HasSuffix_bz2_not_xz[of "Path u"] by blast
    from download_decode_init_error[OF dd this] e show "err ?D = Some e" by simp
  qed
  show ?thesis
  proof (cases w fs cl u path rule: Download_cases)
    case (mkdir_failed e' fs1)
    then show ?thesis by simp
  next
    case (temp_failed e' fs1)
    then show ?thesis by simp
  next
    case (requested fs1 tmp res fs3 tr)
    note dr = requested(6)
    let ?rm = "if res \<noteq> None then [Remove tmp] else []"
    have tD: "trace ?D = [MkdirAll ?dir mode_0755, TempFile ?dir (snd (Split path))] @ tr @ ?rm
                @ [Close tmp]"
      using requested(7) by simp
    have "butlast (trace ?D) = [MkdirAll ?dir mode_0755, TempFile ?dir (snd (Split path))] @ tr @ ?rm"
      unfolding tD by (simp add: butlast_append)
    then have di: "distinct (butlast (trace ?D))"
      using download_request_trace[OF dr] by auto
    have "set ?rm \<subseteq> {Remove tmp}" by auto
    note tm = Download_trace_requested[OF tD this]
    have eD: "err ?D = res" using requested(7) by simp
    note er = download_request_errors[OF dr, of e t r fs0]
    have nr: "NewRequest ''GET'' u \<in> set (trace ?D) \<and> new_request_err w ''GET'' u = Some e
        \<longrightarrow> err ?D = Some e" using er eD by simp
    have cd: "ClientDo ?req \<in> set (trace ?D) \<and> cl ?req = Inl e \<longrightarrow> err ?D = Some e"
      using er eD tm[where q = ?req] by simp
    have cp: "Copy t r \<in> set (trace ?D) \<and> fst (io_copy w fs0 t r) = Some e \<longrightarrow> err ?D = Some e"
      using er eD tm[where t = t and r = r] by simp
    have cl: "Copy t r \<in> set (trace ?D) \<and> fst (io_copy w fs0 t r) = None \<and> close_err w t = Some e
        \<longrightarrow> err ?D = Some (Wrapf ''write and close temporary file'' e)"
      using er eD tm[where t = t and r = r] by simp
    have rn: "Rename t path \<in> set (trace ?D) \<and> rename_err w t path = Some e \<longrightarrow> err ?D = Some e"
      using er eD tm[where t = t and p = path] by simp
    have mk: "fst (mkdir_all w fs ?dir mode_0755) = None" using requested(1) by simp
    have ct: "fst (CreateTemp w (snd (mkdir_all w fs ?dir mode_0755)) ?dir (snd (Split path))) \<noteq> Inl e"
      using requested(1,2) by simp
    show ?thesis using di nr cd cp cl rn mk ct init by simp
  qed
qed

text \<open>
  C9 as stated fails: a copy that fails and a rename that fails with the same error make
  Download return the same, unwrapped error value.
\<close>

theorem download_error_propagation_counterexample:
  "err (Download copy_fails_world empty_fs (serve 200 ''abc'') (url_of_path ''/data'') ''data.txt'')
     = Some (Errno ''input/output error'')
   \<and> err (Download rename_fails_world empty_fs (serve 200 ''abc'') (url_of_path ''/data'') ''data.txt'')
     = Some (Errno ''input/output error'')
   \<and> Rename ''./data.txt42'' ''data.txt''
       \<notin> set (trace (Download copy_fails_world empty_fs (serve 200 ''abc'') (url_of_path ''/data'')
                       ''data.txt''))
   \<and> Rename ''./data.txt42'' ''data.txt''
       \<in> set (trace (Download rename_fails_world empty_fs (serve 200 ''abc'') (url_of_path ''/data'')
                       ''data.txt''))"
  by code_simp

theorem download_error_propagation_witness:
  "Rename ''./data.txt42'' ''data.txt''
       \<in> set (trace (Download rename_fails_world empty_fs (serve 200 ''abc'') (url_of_path ''/data'')
                       ''data.txt''))
   \<and> rename_err rename_fails_world ''./data.txt42'' ''data.txt'' = Some (Errno ''input/output error'')
   \<and> err (Download rename_fails_world empty_fs (serve 200 ''abc'') (url_of_path ''/data'') ''data.txt'')
     = Some (Errno ''input/output error'')"
proof -
  have a: "Rename ''./data.txt42'' ''data.txt''
       \<in> set (trace (Download rename_fails_world empty_fs (serve 200 ''abc'') (url_of_path ''/data'')
                       ''data.txt''))"
    by code_simp
  have b: "rename_err rename_fails_world ''./data.txt42'' ''data.txt'' = Some (Errno ''input/output error'')"
    by (simp add: rename_fails_world_def)
  from download_error_propagation[where w = rename_fails_world and fs = empty_fs
         and cl = "serve 200 ''abc''" and u = "url_of_path ''/data''" and path = "''data.txt''"
         and e = "Errno ''input/output error''" and t = "''./data.txt42''"
         and r = "(''abc'', None)" and fs0 = empty_fs
         and resp = "\<lparr>StatusCode = 200, Body = (''abc'', None)\<rparr>"]
  have "Rename ''./data.txt42'' ''data.txt''
       \<in> set (trace (Download rename_fails_world empty_fs (serve 200 ''abc'') (url_of_path ''/data'')
                       ''data.txt''))
       \<and> rename_err rename_fails_world ''./data.txt42'' ''data.txt'' = Some (Errno ''input/output error'')
     \<longrightarrow> err (Download rename_fails_world empty_fs (serve 200 ''abc'') (url_of_path ''/data'') ''data.txt'')
          = Some (Errno ''input/output error'')"
    by blast
  with a b show ?thesis by blast
qed

end
